theory Spec2Isabelle
  imports Complex_Main "HOL-Library.Multiset" "HOL-Library.Char_ord" "HOL-Library.List_Lexorder"
begin

section \<open>Data model of dashboard.ts\<close>

text \<open>
  \<^verbatim>\<open>interface ContributionDay { date: string; contributionCount: number; }\<close>
  \<^verbatim>\<open>interface ContributionWeek { contributionDays: ContributionDay[]; }\<close>
  \<^verbatim>\<open>interface CalendarData { totalContributions: number; weeks: ContributionWeek[]; }\<close>

  The counts are the integers of the GraphQL answer; they are kept as \<open>int\<close>, so that the
  tests \<open>> 0\<close> and \<open>=== 0\<close> of the source stay different tests.
\<close>

record ContributionDay =
  date :: string
  contributionCount :: int

record ContributionWeek =
  contributionDays :: "ContributionDay list"

record CalendarData =
  totalContributions :: int
  weeks :: "ContributionWeek list"

section \<open>The runtime: sorting, string comparison, the clock\<close>

text \<open>
  \<open>Array.prototype.sort\<close> with a comparator is stable (ECMAScript 2019): with a consistent
  comparator its result is the one of a stable insertion sort, where \<open>x\<close> goes before \<open>y\<close>
  as soon as \<open>cmp x y \<le> 0\<close>.
\<close>

fun insertBy :: "('a \<Rightarrow> 'a \<Rightarrow> int) \<Rightarrow> 'a \<Rightarrow> 'a list \<Rightarrow> 'a list" where
  "insertBy cmp x [] = [x]"
| "insertBy cmp x (y # ys) = (if cmp x y \<le> 0 then x # y # ys else y # insertBy cmp x ys)"

definition sortBy :: "('a \<Rightarrow> 'a \<Rightarrow> int) \<Rightarrow> 'a list \<Rightarrow> 'a list" where
  "sortBy cmp xs = foldr (insertBy cmp) xs []"

text \<open>
  \<open>a.localeCompare(b)\<close> on the dates of the calendar: ISO dates \<open>YYYY-MM-DD\<close> are digits
  with \<open>-\<close> at fixed places, on which the collation order is the order of the characters
  read from the left.
\<close>

definition localeCompare :: "string \<Rightarrow> string \<Rightarrow> int" where
  "localeCompare a b = (if a < b then - 1 else if a = b then 0 else 1)"

text \<open>
  A \<open>Date\<close> is its time value, the milliseconds since 1970-01-01T00:00:00Z.
  \<open>toISOString\<close> prints that instant in UTC (ECMAScript, Date.prototype.toISOString):
  \<open>YYYY-MM-DDTHH:mm:ss.sssZ\<close>, the year with a sign and six digits outside 0..9999.
  The source keeps \<open>slice(0, 10)\<close> of it, so only the date part is built here.
\<close>

definition msPerDay :: int where
  "msPerDay = 86400000"

definition civilFromDays :: "int \<Rightarrow> int \<times> int \<times> int" where
  "civilFromDays days =
     (let z = days + 719468;
          era = z div 146097;
          doe = z - era * 146097;
          yoe = (doe - doe div 1460 + doe div 36524 - doe div 146096) div 365;
          doy = doe - (365 * yoe + yoe div 4 - yoe div 100);
          mp = (5 * doy + 2) div 153;
          d = doy - (153 * mp + 2) div 5 + 1;
          m = (if mp < 10 then mp + 3 else mp - 9);
          y = yoe + era * 400 + (if m \<le> 2 then 1 else 0)
      in (y, m, d))"

definition digitChar :: "int \<Rightarrow> char" where
  "digitChar n = char_of (48 + nat (n mod 10))"

fun padDigits :: "nat \<Rightarrow> int \<Rightarrow> string" where
  "padDigits 0 n = []"
| "padDigits (Suc k) n = padDigits k (n div 10) @ [digitChar n]"

definition isoYear :: "int \<Rightarrow> string" where
  "isoYear y =
     (if 0 \<le> y \<and> y \<le> 9999 then padDigits 4 y
      else (if y < 0 then ''-'' else ''+'') @ padDigits 6 (abs y))"

definition toISOString_slice10 :: "int \<Rightarrow> string" where
  "toISOString_slice10 t =
     (case civilFromDays (t div msPerDay) of
        (y, m, d) \<Rightarrow> take 10 (isoYear y @ ''-'' @ padDigits 2 m @ ''-'' @ padDigits 2 d))"

section \<open>Data processing\<close>

definition getAllDays :: "CalendarData \<Rightarrow> ContributionDay list" where
  "getAllDays calendar = concat (map contributionDays (weeks calendar))"

text \<open>
  \<open>calculateStreak\<close>: the copy of \<open>days\<close> sorted by \<open>b.date.localeCompare(a.date)\<close>, the
  start index, and the \<open>for\<close> loop with its \<open>break\<close>. The first argument is the time
  value that \<open>new Date()\<close> reads from the clock.
\<close>

definition sortedDesc :: "ContributionDay list \<Rightarrow> ContributionDay list" where
  "sortedDesc days = sortBy (\<lambda>a b. localeCompare (date b) (date a)) days"

definition startIdx :: "string \<Rightarrow> ContributionDay list \<Rightarrow> nat" where
  "startIdx today sorted' =
     (case sorted' of
        [] \<Rightarrow> 0
      | d # _ \<Rightarrow> (if date d = today \<and> contributionCount d = 0 then 1 else 0))"

function streakLoop :: "ContributionDay list \<Rightarrow> nat \<Rightarrow> nat \<Rightarrow> nat" where
  "streakLoop sorted' i streak =
     (if i < length sorted'
      then (if contributionCount (sorted' ! i) > 0
            then streakLoop sorted' (i + 1) (streak + 1)
            else streak)
      else streak)"
  by pat_completeness auto
termination
  by (relation "measure (\<lambda>(sorted', i, streak). length sorted' - i)") auto

definition calculateStreak :: "int \<Rightarrow> ContributionDay list \<Rightarrow> nat" where
  "calculateStreak now days =
     (let sorted' = sortedDesc days;
          today = toISOString_slice10 now
      in streakLoop sorted' (startIdx today sorted') 0)"

text \<open>\<open>calculateLongestStreak\<close>: the \<open>for ... of\<close> loop, its state \<open>longest\<close> and \<open>current\<close>.\<close>

fun longestLoop :: "ContributionDay list \<Rightarrow> nat \<Rightarrow> nat \<Rightarrow> nat" where
  "longestLoop [] longest current = longest"
| "longestLoop (day # rest) longest current =
     (if contributionCount day > 0
      then (let current' = current + 1
            in longestLoop rest (if current' > longest then current' else longest) current')
      else longestLoop rest longest 0)"

definition calculateLongestStreak :: "ContributionDay list \<Rightarrow> nat" where
  "calculateLongestStreak days = longestLoop days 0 0"

text \<open>
  \<open>computeQuartiles\<close>. \<open>Math.floor(nonZero.length * 0.25)\<close> is computed on the reals: the
  three factors are dyadic and the length of an array is below \<open>2^32\<close>, so the products of
  the source are exact.
\<close>

definition nonZero :: "ContributionDay list \<Rightarrow> int list" where
  "nonZero days = sortBy (\<lambda>a b. a - b) (filter (\<lambda>c. c > 0) (map contributionCount days))"

definition floorIndex :: "nat \<Rightarrow> real \<Rightarrow> nat" where
  "floorIndex n q = nat \<lfloor>real n * q\<rfloor>"

definition computeQuartiles :: "ContributionDay list \<Rightarrow> int list" where
  "computeQuartiles days =
     (let nz = nonZero days
      in if length nz = 0 then [1, 2, 3, 4]
         else [nz ! floorIndex (length nz) 0.25,
               nz ! floorIndex (length nz) 0.50,
               nz ! floorIndex (length nz) 0.75])"

text \<open>
  \<open>getHeatmapLevel\<close>. \<open>quartiles[k]\<close> beyond the end of the array is \<open>undefined\<close>, and
  \<open>count <= undefined\<close> is false.
\<close>

definition leAt :: "int \<Rightarrow> int list \<Rightarrow> nat \<Rightarrow> bool" where
  "leAt count' quartiles k = (k < length quartiles \<and> count' \<le> quartiles ! k)"

definition getHeatmapLevel :: "int \<Rightarrow> int list \<Rightarrow> nat" where
  "getHeatmapLevel count' quartiles =
     (if count' = 0 then 0
      else if leAt count' quartiles 0 then 1
      else if leAt count' quartiles 1 then 2
      else if leAt count' quartiles 2 then 3
      else 4)"

section \<open>The heatmap\<close>

text \<open>
  The layout of \<open>renderHeatmap\<close>, one definition for each \<open>const\<close> of the source.
  \<open>width\<close> is \<open>Math.min(termWidth, 100)\<close>, an integer.
\<close>

definition dayLabelWidth :: int where
  "dayLabelWidth = 6"

definition indent :: int where
  "indent = 2"

definition available :: "int \<Rightarrow> int" where
  "available width = width - indent - dayLabelWidth"

definition cellWidth :: "ContributionWeek list \<Rightarrow> int \<Rightarrow> int" where
  "cellWidth wks width = (if available width \<ge> int (length wks) * 2 then 2 else 1)"

definition maxWeeks :: "ContributionWeek list \<Rightarrow> int \<Rightarrow> int" where
  "maxWeeks wks width = min (int (length wks)) (available width div cellWidth wks width)"

text \<open>\<open>Array.prototype.slice(start)\<close>: a negative start counts from the end.\<close>

definition slice :: "int \<Rightarrow> 'a list \<Rightarrow> 'a list" where
  "slice start xs =
     (let len = int (length xs);
          k = (if start < 0 then max (len + start) 0 else min start len)
      in drop (nat k) xs)"

definition displayWeeks :: "ContributionWeek list \<Rightarrow> int \<Rightarrow> ContributionWeek list" where
  "displayWeeks wks width = slice (int (length wks) - maxWeeks wks width) wks"

definition rowIndices :: "ContributionWeek list \<Rightarrow> int \<Rightarrow> nat list" where
  "rowIndices wks width =
     (if available width \<ge> int (length wks) * 2 then [0, 1, 2, 3, 4, 5, 6] else [1, 3, 5])"

definition months :: "string list" where
  "months = [''Jan'', ''Feb'', ''Mar'', ''Apr'', ''May'', ''Jun'',
             ''Jul'', ''Aug'', ''Sep'', ''Oct'', ''Nov'', ''Dec'']"

text \<open>
  The month of a week's first day is \<open>new Date(firstDay.date + 'T00:00:00').getMonth()\<close>.
  The parser of dates belongs to the runtime, so it is the parameter \<open>getMonth\<close> of the
  model: it gives the month, 0 to 11, or \<open>None\<close> for the \<open>NaN\<close> of an invalid date.
  \<open>lastMonth\<close> starts at \<open>-1\<close>. \<open>NaN !== x\<close> holds for every \<open>x\<close>, and \<open>months[NaN]\<close>
  is \<open>undefined\<close>, here \<open>None\<close>.
\<close>

definition strictNeq :: "int option \<Rightarrow> int option \<Rightarrow> bool" where
  "strictNeq a b = (case (a, b) of (Some x, Some y) \<Rightarrow> x \<noteq> y | _ \<Rightarrow> True)"

definition monthLabel :: "int option \<Rightarrow> string option" where
  "monthLabel month =
     (case month of
        None \<Rightarrow> None
      | Some m \<Rightarrow> (if 0 \<le> m \<and> m < int (length months) then Some (months ! nat m) else None))"

fun monthPositionsLoop ::
  "(string \<Rightarrow> int option) \<Rightarrow> int \<Rightarrow> ContributionWeek list \<Rightarrow> nat \<Rightarrow> int option
   \<Rightarrow> (int \<times> string option) list" where
  "monthPositionsLoop getMonth cw [] w lastMonth = []"
| "monthPositionsLoop getMonth cw (wk # rest) w lastMonth =
     (case contributionDays wk of
        [] \<Rightarrow> monthPositionsLoop getMonth cw rest (w + 1) lastMonth
      | firstDay # _ \<Rightarrow>
          (let month = getMonth (date firstDay)
           in if strictNeq month lastMonth
              then (int w * cw, monthLabel month)
                   # monthPositionsLoop getMonth cw rest (w + 1) month
              else monthPositionsLoop getMonth cw rest (w + 1) lastMonth))"

definition monthPositions ::
  "(string \<Rightarrow> int option) \<Rightarrow> int \<Rightarrow> ContributionWeek list \<Rightarrow> (int \<times> string option) list" where
  "monthPositions getMonth cw dws = monthPositionsLoop getMonth cw dws 0 (Some (- 1))"

text \<open>
  The month row. \<open>chars\<close> is an array of one-character strings, here a \<open>string\<close>.
  Reading \<open>label.length\<close> of an \<open>undefined\<close> label throws a \<open>TypeError\<close>, which nothing
  catches; \<open>&&\<close> reads it only when \<open>col > lastEnd\<close> holds.
\<close>

datatype error = TypeError

definition writeLabel :: "string \<Rightarrow> int \<Rightarrow> string \<Rightarrow> string" where
  "writeLabel chars col label =
     fold (\<lambda>i cs. cs[nat (col + int i) := label ! i]) [0..<length label] chars"

fun placeLabels ::
  "(int \<times> string option) list \<Rightarrow> string \<Rightarrow> int \<Rightarrow> error + (string \<times> int)" where
  "placeLabels [] chars lastEnd = Inr (chars, lastEnd)"
| "placeLabels ((col, label) # rest) chars lastEnd =
     (if col > lastEnd
      then (case label of
              None \<Rightarrow> Inl TypeError
            | Some l \<Rightarrow>
                (if col + int (length l) \<le> int (length chars)
                 then placeLabels rest (writeLabel chars col l) (col + int (length l))
                 else placeLabels rest chars lastEnd))
      else placeLabels rest chars lastEnd)"

definition blankChars :: "ContributionWeek list \<Rightarrow> int \<Rightarrow> string" where
  "blankChars dws cw = replicate (nat (int (length dws) * cw)) (CHR '' '')"

definition monthRow ::
  "(string \<Rightarrow> int option) \<Rightarrow> ContributionWeek list \<Rightarrow> int \<Rightarrow> error + string" where
  "monthRow getMonth wks width =
     (let cw = cellWidth wks width;
          dws = displayWeeks wks width
      in case placeLabels (monthPositions getMonth cw dws) (blankChars dws cw) (- 1) of
           Inl e \<Rightarrow> Inl e
         | Inr (chars, lastEnd) \<Rightarrow>
             Inr (replicate (nat (indent + dayLabelWidth)) (CHR '' '') @ chars))"

section \<open>Data fetching\<close>

text \<open>
  The world of \<open>fetchContributions\<close>. \<open>execSync\<close> runs the command in a shell and gives
  its standard output, or throws: when the binary is missing or the CLI is not signed
  in the command exits with a status that is not 0, and after 10 seconds it is killed.
  \<open>JSON.parse\<close> gives a value or throws a \<open>SyntaxError\<close>, here \<open>None\<close>. Both
  belong to the runtime and are parameters of the model.
\<close>

datatype execFailure = CommandNotFound | NonZeroExit int | TimedOut

datatype execOutcome = Failed execFailure | Stdout string

datatype json =
    JNull
  | JBool bool
  | JNumber int
  | JString string
  | JArray "json list"
  | JObject "(string \<times> json) list"

datatype jsvalue = Undefined | Value json

datatype thrown = ExecThrown execFailure | SyntaxError | PropertyOfUndefined

text \<open>
  Reading a property: of \<open>undefined\<close> or \<open>null\<close> it throws a \<open>TypeError\<close>; of an object it
  gives the property or \<open>undefined\<close>; the properties read here are none of a number, a
  string, a boolean or an array, where they give \<open>undefined\<close>.
\<close>

fun getProp :: "jsvalue \<Rightarrow> string \<Rightarrow> thrown + jsvalue" where
  "getProp Undefined k = Inl PropertyOfUndefined"
| "getProp (Value JNull) k = Inl PropertyOfUndefined"
| "getProp (Value (JObject kvs)) k =
     Inr (case map_of kvs k of None \<Rightarrow> Undefined | Some v \<Rightarrow> Value v)"
| "getProp (Value v) k = Inr Undefined"

definition andThen :: "thrown + 'a \<Rightarrow> ('a \<Rightarrow> thrown + 'b) \<Rightarrow> thrown + 'b" where
  "andThen r f = (case r of Inl e \<Rightarrow> Inl e | Inr x \<Rightarrow> f x)"

record GitHubData =
  login :: jsvalue
  calendar :: jsvalue

text \<open>The query of the source, and the command line built from it.\<close>

definition query :: string where
  "query = concat (map (\<lambda>l. CHR 0x0A # l)
     [''    query {'',
      ''      viewer {'',
      ''        login'',
      ''        contributionsCollection {'',
      ''          contributionCalendar {'',
      ''            totalContributions'',
      ''            weeks {'',
      ''              contributionDays {'',
      ''                date'',
      ''                contributionCount'',
      ''              }'',
      ''            }'',
      ''          }'',
      ''        }'',
      ''      }'',
      ''    }'',
      ''  ''])"

definition replaceChar :: "char \<Rightarrow> string \<Rightarrow> string \<Rightarrow> string" where
  "replaceChar c r s = concat (map (\<lambda>x. if x = c then r else [x]) s)"

definition command :: string where
  "command = ''gh api graphql -f query='' @ [CHR 0x27]
     @ replaceChar (CHR 0x27) ([CHR 0x27, CHR 0x5C, CHR 0x27, CHR 0x27])
         (replaceChar (CHR 0x0A) '' '' query)
     @ [CHR 0x27]"

text \<open>
  The \<open>try\<close> block: the first throw ends it. The process keeps the number of calls of
  \<open>execSync\<close> and the lines written to standard error, each with its chalk style.
\<close>

definition tryFetch ::
  "(string \<Rightarrow> execOutcome) \<Rightarrow> (string \<Rightarrow> json option) \<Rightarrow> thrown + GitHubData" where
  "tryFetch execSync JSON_parse =
     (case execSync command of
        Failed f \<Rightarrow> Inl (ExecThrown f)
      | Stdout result \<Rightarrow>
          (case JSON_parse result of
             None \<Rightarrow> Inl SyntaxError
           | Some json \<Rightarrow>
               andThen (getProp (Value json) ''data'') (\<lambda>data.
               andThen (getProp data ''viewer'') (\<lambda>viewer.
               andThen (getProp viewer ''login'') (\<lambda>login'.
               andThen (getProp viewer ''contributionsCollection'') (\<lambda>collection.
               andThen (getProp collection ''contributionCalendar'') (\<lambda>calendar'.
               Inr \<lparr>login = login', calendar = calendar'\<rparr>)))))))"

datatype style = Red | Dim

record Process =
  execCalls :: nat
  stderrLines :: "(style \<times> string) list"

datatype 'a completion = Returned 'a | Exited int

definition diagnostic :: "(style \<times> string) list" where
  "diagnostic =
     [(Red, ''Failed to fetch GitHub data. Make sure `gh` is installed and authenticated.''),
      (Dim, ''Run `gh auth login` to set up the GitHub CLI.'')]"

definition fetchContributions ::
  "(string \<Rightarrow> execOutcome) \<Rightarrow> (string \<Rightarrow> json option) \<Rightarrow> Process
   \<Rightarrow> GitHubData completion \<times> Process" where
  "fetchContributions execSync JSON_parse p =
     (let p1 = p\<lparr>execCalls := execCalls p + 1\<rparr>
      in case tryFetch execSync JSON_parse of
           Inr data \<Rightarrow> (Returned data, p1)
         | Inl e \<Rightarrow> (Exited 1, p1\<lparr>stderrLines := stderrLines p1 @ diagnostic\<rparr>))"

section \<open>The bar chart\<close>

text \<open>
  A \<open>number\<close> of the runtime is \<open>NaN\<close> or a finite value; an integer count is such a
  value. The infinities are left out: the divisor of the source is at least 1. The
  division, the multiplication and \<open>Math.round\<close> of the runtime work on doubles and
  round their results, so they are parameters of the model (\<open>divide'\<close>, \<open>times'\<close>,
  \<open>Math_round\<close>); \<open>Math.max\<close> on the integer counts is exact.
\<close>

datatype number = NaN | Fin rat

text \<open>
  \<open>renderBarChart\<close>: the days sorted by \<open>a.date.localeCompare(b.date)\<close>, the last 14 of
  them (\<open>slice(-14)\<close>), \<open>maxCount\<close> with its floor of 1, the widest bar, and for every day
  of the chart the length \<open>barLen\<close> of its bar.
\<close>

definition labelWidth :: int where
  "labelWidth = 8"

definition countWidth :: int where
  "countWidth = 6"

definition sortedAsc :: "ContributionDay list \<Rightarrow> ContributionDay list" where
  "sortedAsc days = sortBy (\<lambda>a b. localeCompare (date a) (date b)) days"

definition last14 :: "ContributionDay list \<Rightarrow> ContributionDay list" where
  "last14 days = slice (- 14) (sortedAsc days)"

definition maxCount :: "ContributionDay list \<Rightarrow> int" where
  "maxCount days = foldr max (map contributionCount (last14 days)) 1"

definition barMaxWidth :: "int \<Rightarrow> int" where
  "barMaxWidth width = max 20 (width - labelWidth - countWidth - 4)"

definition barLen ::
  "(number \<Rightarrow> number \<Rightarrow> number) \<Rightarrow> (number \<Rightarrow> number \<Rightarrow> number) \<Rightarrow> (number \<Rightarrow> number)
   \<Rightarrow> ContributionDay list \<Rightarrow> int \<Rightarrow> ContributionDay \<Rightarrow> number" where
  "barLen divide' times' Math_round days width day =
     Math_round (times' (divide' (Fin (of_int (contributionCount day)))
                                 (Fin (of_int (maxCount days))))
                        (Fin (of_int (barMaxWidth width))))"

definition renderBarChart ::
  "(number \<Rightarrow> number \<Rightarrow> number) \<Rightarrow> (number \<Rightarrow> number \<Rightarrow> number) \<Rightarrow> (number \<Rightarrow> number)
   \<Rightarrow> ContributionDay list \<Rightarrow> int \<Rightarrow> (ContributionDay \<times> number) list" where
  "renderBarChart divide' times' Math_round days width =
     map (\<lambda>day. (day, barLen divide' times' Math_round days width day)) (last14 days)"

section \<open>Notions of the specification\<close>

text \<open>A day counts for a streak when its \<open>contributionCount\<close> is positive.\<close>

definition positive :: "ContributionDay \<Rightarrow> bool" where
  "positive d = (contributionCount d > 0)"

text \<open>
  \<open>positiveRun days i n\<close>: the \<open>n\<close> consecutive days of the list from index \<open>i\<close> on
  exist and are all positive.
\<close>

definition positiveRun :: "ContributionDay list \<Rightarrow> nat \<Rightarrow> nat \<Rightarrow> bool" where
  "positiveRun days i n = (i + n \<le> length days \<and> list_all positive (take n (drop i days)))"

text \<open>Descending date order, and ascending date order with pairwise distinct dates.\<close>

definition descending :: "ContributionDay list \<Rightarrow> bool" where
  "descending ds = sorted_wrt (\<lambda>a b. date b \<le> date a) ds"

definition ascendingDistinct :: "ContributionDay list \<Rightarrow> bool" where
  "ascendingDistinct ds = sorted_wrt (\<lambda>a b. date a < date b) ds"

text \<open>
  The current streak in the words of the specification: from the days in descending
  order, the most recent one is left out when it is today with a count of zero; the
  streak is the number of positive days before the first day that is not.
\<close>

definition skipToday :: "string \<Rightarrow> ContributionDay list \<Rightarrow> ContributionDay list" where
  "skipToday today ds =
     (case ds of
        [] \<Rightarrow> []
      | d # rest \<Rightarrow> (if date d = today \<and> contributionCount d = 0 then rest else d # rest))"

definition currentStreak_spec :: "string \<Rightarrow> ContributionDay list \<Rightarrow> nat" where
  "currentStreak_spec today days =
     length (takeWhile positive (skipToday today (sortedDesc days)))"

text \<open>
  Today by local date: the calendar date of the instant \<open>t\<close> on a host whose
  \<open>getTimezoneOffset()\<close> is \<open>offsetMinutes\<close> (UTC minus local time, in minutes).
\<close>

definition localISODate :: "int \<Rightarrow> int \<Rightarrow> string" where
  "localISODate offsetMinutes t = toISOString_slice10 (t - offsetMinutes * 60000)"

text \<open>
  The quartiles in the words of the specification: the values at the positions
  \<open>floor(n * 0.25)\<close>, \<open>floor(n * 0.50)\<close> and \<open>floor(n * 0.75)\<close> of the ascending sequence
  of the \<open>n\<close> nonzero counts, and the fixed edges when there is none.
\<close>

definition nonzeroAscending :: "ContributionDay list \<Rightarrow> int list" where
  "nonzeroAscending days = sort (filter (\<lambda>c. c \<noteq> 0) (map contributionCount days))"

definition quartiles_spec :: "ContributionDay list \<Rightarrow> int list" where
  "quartiles_spec days =
     (let nz = nonzeroAscending days; n = length nz
      in if n = 0 then [1, 2, 3, 4]
         else [nz ! nat \<lfloor>real n * 0.25\<rfloor>, nz ! nat \<lfloor>real n * 0.50\<rfloor>, nz ! nat \<lfloor>real n * 0.75\<rfloor>])"

text \<open>
  The month labels in the words of the specification. \<open>firstDayMonthsFrom\<close> lists the
  displayed weeks that have a first day, each with its column index and the month of that
  day. \<open>monthChanges\<close> keeps the weeks whose month differs from the month of the week
  before (for the first week, from the start value of \<open>lastMonth\<close>), and \<open>labelAt\<close> puts
  the label of a kept week at its column.
\<close>

definition firstDayMonthsFrom ::
  "(string \<Rightarrow> int option) \<Rightarrow> ContributionWeek list \<Rightarrow> nat \<Rightarrow> (nat \<times> int option) list" where
  "firstDayMonthsFrom getMonth wks w0 =
     map (\<lambda>i. (w0 + i, getMonth (date (hd (contributionDays (wks ! i))))))
       (filter (\<lambda>i. contributionDays (wks ! i) \<noteq> []) [0..<length wks])"

definition monthChanges :: "int option \<Rightarrow> (nat \<times> int option) list \<Rightarrow> (nat \<times> int option) list" where
  "monthChanges lastMonth ms =
     map fst (filter (\<lambda>(wm, before). strictNeq (snd wm) before)
                (zip ms (lastMonth # map snd ms)))"

definition labelAt :: "int \<Rightarrow> nat \<times> int option \<Rightarrow> int \<times> string option" where
  "labelAt cw wm = (int (fst wm) * cw, monthLabel (snd wm))"

text \<open>The runtime reads a month, 0 to 11, from every date of the calendar.\<close>

definition validMonths :: "(string \<Rightarrow> int option) \<Rightarrow> ContributionWeek list \<Rightarrow> bool" where
  "validMonths getMonth wks =
     list_all (\<lambda>wk. list_all (\<lambda>d. case getMonth (date d) of
                                     None \<Rightarrow> False
                                   | Some m \<Rightarrow> 0 \<le> m \<and> m < 12) (contributionDays wk)) wks"

text \<open>
  \<open>placed\<close> takes the labels in order and keeps a label when it starts after the end of
  the last kept label and ends inside the \<open>n\<close> columns of the grid; \<open>writeAll\<close> writes
  labels into a row. \<open>separated\<close>: every label ends before the next one starts, with a
  column between them. \<open>covers p j\<close>: column \<open>j\<close> lies under the label \<open>p\<close>.
\<close>

fun placed :: "(int \<times> string option) list \<Rightarrow> nat \<Rightarrow> int \<Rightarrow> (int \<times> string) list" where
  "placed [] n lastEnd = []"
| "placed ((col, label) # rest) n lastEnd =
     (case label of
        None \<Rightarrow> placed rest n lastEnd
      | Some l \<Rightarrow>
          (if col > lastEnd \<and> col + int (length l) \<le> int n
           then (col, l) # placed rest n (col + int (length l))
           else placed rest n lastEnd))"

definition writeAll :: "(int \<times> string) list \<Rightarrow> string \<Rightarrow> string" where
  "writeAll pl chars = fold (\<lambda>(col, l) cs. writeLabel cs col l) pl chars"

definition covers :: "int \<times> string \<Rightarrow> nat \<Rightarrow> bool" where
  "covers p j = (fst p \<le> int j \<and> int j < fst p + int (length (snd p)))"

definition separated :: "(int \<times> string) list \<Rightarrow> bool" where
  "separated pl = sorted_wrt (\<lambda>p q. fst p + int (length (snd p)) < fst q) pl"

definition allLabelled :: "(int \<times> string option) list \<Rightarrow> bool" where
  "allLabelled ps = list_all (\<lambda>p. snd p \<noteq> None) ps"

definition gridColumns :: "ContributionWeek list \<Rightarrow> int \<Rightarrow> nat" where
  "gridColumns wks width = nat (int (length (displayWeeks wks width)) * cellWidth wks width)"

definition placedLabels ::
  "(string \<Rightarrow> int option) \<Rightarrow> ContributionWeek list \<Rightarrow> int \<Rightarrow> (int \<times> string) list" where
  "placedLabels getMonth wks width =
     placed (monthPositions getMonth (cellWidth wks width) (displayWeeks wks width))
       (gridColumns wks width) (- 1)"

text \<open>
  The value found in a parsed JSON document by following property names through nested
  objects.
\<close>

fun jsonPath :: "json \<Rightarrow> string list \<Rightarrow> json option" where
  "jsonPath j [] = Some j"
| "jsonPath (JObject kvs) (k # ks) =
     (case map_of kvs k of None \<Rightarrow> None | Some v \<Rightarrow> jsonPath v ks)"
| "jsonPath j (k # ks) = None"

text \<open>
  Ascending date order, and the length of a bar in the words of the specification:
  \<open>round(count / max * maxWidth)\<close>, in the arithmetic of the runtime.
\<close>

definition ascending :: "ContributionDay list \<Rightarrow> bool" where
  "ascending ds = sorted_wrt (\<lambda>a b. date a \<le> date b) ds"

definition barLength_spec ::
  "(number \<Rightarrow> number \<Rightarrow> number) \<Rightarrow> (number \<Rightarrow> number \<Rightarrow> number) \<Rightarrow> (number \<Rightarrow> number)
   \<Rightarrow> int \<Rightarrow> int \<Rightarrow> int \<Rightarrow> number" where
  "barLength_spec divide' times' Math_round count' max' maxWidth =
     Math_round (times' (divide' (Fin (of_int count')) (Fin (of_int max'))) (Fin (of_int maxWidth)))"

text \<open>
  Arithmetic for the examples. On finite operands these are the results of the runtime
  whenever the exact quotient or product is a double and the divisor is not 0; \<open>0 / 0\<close> is
  \<open>NaN\<close>, and \<open>NaN\<close> stays \<open>NaN\<close>. The examples use them on such operands only.
\<close>

definition exactDivide :: "number \<Rightarrow> number \<Rightarrow> number" where
  "exactDivide a b =
     (case (a, b) of
        (Fin x, Fin y) \<Rightarrow> (if y = 0 then NaN else Fin (x / y))
      | _ \<Rightarrow> NaN)"

definition exactTimes :: "number \<Rightarrow> number \<Rightarrow> number" where
  "exactTimes a b = (case (a, b) of (Fin x, Fin y) \<Rightarrow> Fin (x * y) | _ \<Rightarrow> NaN)"

definition exactRound :: "number \<Rightarrow> number" where
  "exactRound a = (case a of Fin x \<Rightarrow> Fin (of_int \<lfloor>x + 1 / 2\<rfloor>) | NaN \<Rightarrow> NaN)"

section \<open>The loops of the streaks\<close>

lemma streakLoop_step:
  "streakLoop s i k =
     (if i < length s \<and> positive (s ! i) then streakLoop s (Suc i) (Suc k) else k)"
  by (subst streakLoop.simps) (simp add: positive_def)

lemma streakLoop_takeWhile:
  "streakLoop s i k = k + length (takeWhile positive (drop i s))"
proof (induction s i k rule: streakLoop.induct)
  case (1 s i k)
  show ?case
  proof (cases "i < length s")
    case False
    then show ?thesis by (subst streakLoop_step) simp
  next
    case True
    then have d: "drop i s = s ! i # drop (Suc i) s"
      by (simp add: Cons_nth_drop_Suc)
    show ?thesis
    proof (cases "positive (s ! i)")
      case True
      then have "0 < contributionCount (s ! i)" by (simp add: positive_def)
      with \<open>i < length s\<close> "1.IH"
      have "streakLoop s (Suc i) (Suc k) = Suc k + length (takeWhile positive (drop (Suc i) s))"
        by simp
      with True \<open>i < length s\<close> d show ?thesis
        by (subst streakLoop_step) simp
    next
      case False
      with \<open>i < length s\<close> d show ?thesis
        by (subst streakLoop_step) simp
    qed
  qed
qed

lemma positiveRun_Cons_Suc: "positiveRun (x # xs) (Suc i) n = positiveRun xs i n"
  by (simp add: positiveRun_def)

lemma positiveRun_Cons_0:
  "positiveRun (x # xs) 0 (Suc n) = (positive x \<and> positiveRun xs 0 n)"
  by (auto simp: positiveRun_def)

lemma positiveRun_zero: "positiveRun xs i 0 = (i \<le> length xs)"
  by (simp add: positiveRun_def)

lemma positiveRun_prefix_le:
  "positiveRun xs 0 n \<Longrightarrow> n \<le> length (takeWhile positive xs)"
proof (induction xs arbitrary: n)
  case Nil
  then show ?case by (simp add: positiveRun_def)
next
  case (Cons x xs)
  show ?case
  proof (cases n)
    case 0
    then show ?thesis by simp
  next
    case (Suc m)
    with Cons.prems have "positive x" "positiveRun xs 0 m"
      by (simp_all add: positiveRun_Cons_0)
    with Cons.IH Suc show ?thesis by simp
  qed
qed

lemma positiveRun_takeWhile:
  "positiveRun xs 0 (length (takeWhile positive xs))"
  by (induction xs) (simp_all add: positiveRun_zero positiveRun_Cons_0)

lemma positiveRun_takeWhile_drop:
  "positiveRun xs k (length (takeWhile positive (drop k xs)))" if "k \<le> length xs"
proof -
  have "length (takeWhile positive (drop k xs)) \<le> length xs - k"
    using length_takeWhile_le [of positive "drop k xs"] by simp
  moreover have "list_all positive (take (length (takeWhile positive (drop k xs))) (drop k xs))"
  proof -
    have "take (length (takeWhile positive (drop k xs))) (drop k xs) = takeWhile positive (drop k xs)"
      by (simp add: takeWhile_eq_take [symmetric])
    moreover have "list_all positive (takeWhile positive (drop k xs))"
      by (auto simp: list_all_iff dest: set_takeWhileD)
    ultimately show ?thesis by simp
  qed
  ultimately show ?thesis using that by (simp add: positiveRun_def)
qed

lemma positiveRun_rev:
  "positiveRun (rev xs) i n \<Longrightarrow> positiveRun xs (length xs - (i + n)) n"
proof -
  assume a: "positiveRun (rev xs) i n"
  then have le: "i + n \<le> length xs" and all: "list_all positive (take n (drop i (rev xs)))"
    by (simp_all add: positiveRun_def)
  have "drop i (rev xs) = rev (take (length xs - i) xs)"
    by (simp only: drop_rev)
  then have "take n (drop i (rev xs)) = rev (drop (length xs - i - n) (take (length xs - i) xs))"
    using le by (simp only: take_rev length_take) simp
  also have "length xs - i = n + (length xs - (i + n))"
    using le by simp
  then have "drop (length xs - i - n) (take (length xs - i) xs)
             = take n (drop (length xs - (i + n)) xs)"
    by (simp only: take_drop) simp
  finally have "take n (drop i (rev xs)) = rev (take n (drop (length xs - (i + n)) xs))" .
  with all have "list_all positive (take n (drop (length xs - (i + n)) xs))"
    by (simp add: list_all_iff)
  with le show ?thesis by (simp add: positiveRun_def)
qed

lemma positiveRun_Suc_nth:
  assumes "positiveRun xs i (Suc m)"
  shows "i < length xs \<and> positive (xs ! i)"
proof -
  from assms have lt: "i < length xs" and all: "list_all positive (take (Suc m) (drop i xs))"
    by (simp_all add: positiveRun_def)
  from lt have "drop i xs = xs ! i # drop (Suc i) xs" by (simp add: Cons_nth_drop_Suc)
  with all have "positive (xs ! i)" by simp
  with lt show ?thesis by simp
qed

lemma longestLoop_Cons:
  "longestLoop (d # r) l c =
     (if positive d then longestLoop r (max l (Suc c)) (Suc c) else longestLoop r l 0)"
  by (simp add: positive_def Let_def max_def not_less)

lemma longestLoop_ge_longest: "l \<le> longestLoop xs l c"
proof (induction xs arbitrary: l c)
  case Nil
  show ?case by simp
next
  case (Cons x xs)
  have "l \<le> max l (Suc c)" by simp
  also have "\<dots> \<le> longestLoop xs (max l (Suc c)) (Suc c)" by (rule Cons.IH)
  finally show ?case using Cons.IH [of l 0]
    by (simp add: longestLoop_Cons del: longestLoop.simps)
qed

lemma longestLoop_ge_prefix:
  "c \<le> l \<Longrightarrow> c + length (takeWhile positive xs) \<le> longestLoop xs l c"
proof (induction xs arbitrary: l c)
  case Nil
  then show ?case by simp
next
  case (Cons x xs)
  show ?case
  proof (cases "positive x")
    case True
    have "Suc c + length (takeWhile positive xs) \<le> longestLoop xs (max l (Suc c)) (Suc c)"
      by (rule Cons.IH) simp
    with True show ?thesis by (simp add: longestLoop_Cons del: longestLoop.simps)
  next
    case False
    have "c \<le> longestLoop xs l 0"
      using Cons.prems longestLoop_ge_longest [of l xs 0] by simp
    with False show ?thesis by (simp add: longestLoop_Cons del: longestLoop.simps)
  qed
qed

lemma longestLoop_ge_run:
  "positiveRun xs i n \<Longrightarrow> n \<le> longestLoop xs l c"
proof (induction xs arbitrary: i n l c)
  case Nil
  then show ?case by (simp add: positiveRun_def)
next
  case (Cons x xs)
  show ?case
  proof (cases i)
    case (Suc j)
    with Cons.prems have "positiveRun xs j n" by (simp add: positiveRun_Cons_Suc)
    then have "n \<le> longestLoop xs (max l (Suc c)) (Suc c)" and "n \<le> longestLoop xs l 0"
      by (rule Cons.IH)+
    then show ?thesis by (simp add: longestLoop_Cons del: longestLoop.simps)
  next
    case 0
    show ?thesis
    proof (cases n)
      case 0
      then show ?thesis by simp
    next
      case (Suc m)
      with Cons.prems \<open>i = 0\<close> have px: "positive x" and "positiveRun xs 0 m"
        by (simp_all add: positiveRun_Cons_0)
      then have "m \<le> length (takeWhile positive xs)" by (simp add: positiveRun_prefix_le)
      moreover have "Suc c + length (takeWhile positive xs) \<le> longestLoop xs (max l (Suc c)) (Suc c)"
        by (rule longestLoop_ge_prefix) simp
      ultimately show ?thesis using px Suc
        by (simp add: longestLoop_Cons del: longestLoop.simps)
    qed
  qed
qed

lemma longestLoop_attained:
  "c \<le> l \<Longrightarrow>
   longestLoop xs l c = l \<or> longestLoop xs l c = c + length (takeWhile positive xs)
   \<or> (\<exists>i. positiveRun xs i (longestLoop xs l c))"
proof (induction xs arbitrary: l c)
  case Nil
  then show ?case by simp
next
  case (Cons x xs)
  show ?case
  proof (cases "positive x")
    case True
    let ?r = "longestLoop xs (max l (Suc c)) (Suc c)"
    have r: "longestLoop (x # xs) l c = ?r"
      using True by (simp add: longestLoop_Cons del: longestLoop.simps)
    have ge: "Suc c + length (takeWhile positive xs) \<le> ?r"
      by (rule longestLoop_ge_prefix) simp
    have "?r = max l (Suc c) \<or> ?r = Suc c + length (takeWhile positive xs)
          \<or> (\<exists>i. positiveRun xs i ?r)"
      by (rule Cons.IH) simp
    then consider "?r = l" | "?r = Suc c + length (takeWhile positive xs)"
      | i where "positiveRun xs i ?r"
      using ge by (auto simp: max_def split: if_splits)
    then show ?thesis
    proof cases
      case 1
      with r show ?thesis by simp
    next
      case 2
      with r True show ?thesis by simp
    next
      case 3
      then have "positiveRun (x # xs) (Suc i) ?r" by (simp add: positiveRun_Cons_Suc)
      with r show ?thesis by metis
    qed
  next
    case False
    let ?r = "longestLoop xs l 0"
    have r: "longestLoop (x # xs) l c = ?r"
      using False by (simp add: longestLoop_Cons del: longestLoop.simps)
    have "?r = l \<or> ?r = 0 + length (takeWhile positive xs) \<or> (\<exists>i. positiveRun xs i ?r)"
      by (rule Cons.IH) simp
    then consider "?r = l" | "?r = length (takeWhile positive xs)"
      | i where "positiveRun xs i ?r"
      by auto
    then show ?thesis
    proof cases
      case 1
      with r show ?thesis by simp
    next
      case 2
      have "positiveRun xs 0 (length (takeWhile positive xs))" by (rule positiveRun_takeWhile)
      with 2 have "positiveRun (x # xs) (Suc 0) ?r" by (simp add: positiveRun_Cons_Suc)
      with r show ?thesis by metis
    next
      case 3
      then have "positiveRun (x # xs) (Suc i) ?r" by (simp add: positiveRun_Cons_Suc)
      with r show ?thesis by metis
    qed
  qed
qed

lemma longest_is_run: "\<exists>i. positiveRun days i (calculateLongestStreak days)"
proof -
  let ?r = "longestLoop days 0 0"
  have "?r = 0 \<or> ?r = 0 + length (takeWhile positive days) \<or> (\<exists>i. positiveRun days i ?r)"
    by (rule longestLoop_attained) simp
  moreover have "positiveRun days 0 0" by (simp add: positiveRun_zero)
  moreover have "positiveRun days 0 (length (takeWhile positive days))"
    by (rule positiveRun_takeWhile)
  ultimately show ?thesis unfolding calculateLongestStreak_def by auto
qed

lemma longest_ge_run: "positiveRun days i n \<Longrightarrow> n \<le> calculateLongestStreak days"
  unfolding calculateLongestStreak_def by (rule longestLoop_ge_run)

section \<open>The sort by date\<close>

lemma mset_insertBy: "mset (insertBy cmp x ys) = add_mset x (mset ys)"
  by (induction ys) simp_all

lemma mset_sortBy: "mset (sortBy cmp xs) = mset xs"
  by (induction xs) (simp_all add: sortBy_def mset_insertBy)

lemma set_sortBy: "set (sortBy cmp xs) = set xs"
  using mset_sortBy [of cmp xs] by (metis set_mset_mset)

lemma set_insertBy: "set (insertBy cmp x ys) = insert x (set ys)"
  by (induction ys) auto

lemma dateDesc_cmp: "(localeCompare (date y) (date x) \<le> 0) = (date y \<le> date x)"
  by (auto simp: localeCompare_def)

lemma descending_insertBy:
  "descending ys \<Longrightarrow> descending (insertBy (\<lambda>a b. localeCompare (date b) (date a)) x ys)"
proof (induction ys)
  case Nil
  show ?case by (simp add: descending_def)
next
  case (Cons y ys)
  then have ys: "descending ys" and y: "\<forall>z\<in>set ys. date z \<le> date y"
    by (simp_all add: descending_def)
  show ?case
  proof (cases "date y \<le> date x")
    case True
    with y have "\<forall>z\<in>set ys. date z \<le> date x" by auto
    with True Cons.prems show ?thesis by (simp add: descending_def dateDesc_cmp)
  next
    case False
    then have "date x \<le> date y" by simp
    with False y ys Cons.IH show ?thesis
      by (simp add: descending_def dateDesc_cmp set_insertBy)
  qed
qed

lemma descending_sortedDesc: "descending (sortedDesc days)"
  unfolding sortedDesc_def
proof (induction days)
  case Nil
  show ?case by (simp add: sortBy_def descending_def)
next
  case (Cons d ds)
  then show ?case using descending_insertBy [of "sortBy (\<lambda>a b. localeCompare (date b) (date a)) ds" d]
    by (simp add: sortBy_def)
qed

lemma mset_sortedDesc: "mset (sortedDesc days) = mset days"
  by (simp add: sortedDesc_def mset_sortBy)

lemma set_sortedDesc: "set (sortedDesc days) = set days"
  by (simp only: sortedDesc_def set_sortBy)

lemma insertBy_last:
  "\<forall>y\<in>set ys. cmp x y > 0 \<Longrightarrow> insertBy cmp x ys = ys @ [x]"
  by (induction ys) simp_all

lemma sortedDesc_ascending: "ascendingDistinct days \<Longrightarrow> sortedDesc days = rev days"
proof (induction days)
  case Nil
  show ?case by (simp add: sortedDesc_def sortBy_def)
next
  case (Cons d ds)
  then have lt: "\<forall>y\<in>set ds. date d < date y" and "ascendingDistinct ds"
    by (simp_all add: ascendingDistinct_def)
  with Cons.IH have IH: "sortBy (\<lambda>a b. localeCompare (date b) (date a)) ds = rev ds"
    by (simp add: sortedDesc_def)
  have "insertBy (\<lambda>a b. localeCompare (date b) (date a)) d (rev ds) = rev ds @ [d]"
    by (rule insertBy_last) (use lt in \<open>auto simp: localeCompare_def\<close>)
  with IH show ?case by (simp add: sortedDesc_def sortBy_def)
qed

lemma drop_startIdx: "drop (startIdx today s) s = skipToday today s"
proof (cases s)
  case Nil
  then show ?thesis by (simp add: startIdx_def skipToday_def)
next
  case (Cons d rest)
  then show ?thesis by (simp add: startIdx_def skipToday_def)
qed

lemma startIdx_le: "startIdx today s \<le> length s"
  by (simp add: startIdx_def split: list.splits)

lemma calculateStreak_eq:
  "calculateStreak now days = currentStreak_spec (toISOString_slice10 now) days"
  unfolding calculateStreak_def currentStreak_spec_def Let_def
  by (simp only: streakLoop_takeWhile drop_startIdx add_0)

lemma takeWhile_none: "\<forall>d\<in>set xs. \<not> P d \<Longrightarrow> takeWhile P xs = []"
  by (cases xs) simp_all

lemma set_skipToday: "set (skipToday today s) \<subseteq> set s"
proof (cases s)
  case Nil
  then show ?thesis by (simp add: skipToday_def)
next
  case (Cons d rest)
  then show ?thesis by (auto simp: skipToday_def)
qed

section \<open>Current streak\<close>

text \<open>
  What the loop computes. \<open>calculateStreak\<close> walks the days in descending date order (a
  permutation of the input, most recent first), leaves out the most recent day when it
  has a count of zero and carries the date that \<open>new Date().toISOString().slice(0, 10)\<close>
  gives, and returns the number of consecutive positive days from there.
\<close>

lemma calculateStreak_counts_back:
  "mset (sortedDesc days) = mset days \<and> descending (sortedDesc days) \<and>
   calculateStreak now days = currentStreak_spec (toISOString_slice10 now) days"
  by (simp only: mset_sortedDesc descending_sortedDesc calculateStreak_eq)

text \<open>
  C1. The current streak counts the consecutive positive days walking backward from the
  most recent day, after skipping the most recent day when it is today by local date and
  has a count of zero; the source says the same above its test: "Skip today if zero (day
  is not over yet)". The source does not do this. It takes today from \<open>toISOString()\<close>,
  which prints the date in UTC. At 2024-01-01T20:00:00Z on a host ten hours ahead of UTC
  the local date is 2024-01-02. The most recent day, 2024-01-02, is not over and has no
  contribution yet, and the day before has three: the current streak is 1, but the source
  compares with 2024-01-01, does not skip, and returns 0.
\<close>

theorem calculateStreak_local_today_not_skipped:
  "calculateStreak 1704139200000
     [\<lparr>date = ''2024-01-01'', contributionCount = 3\<rparr>,
      \<lparr>date = ''2024-01-02'', contributionCount = 0\<rparr>] = 0
   \<and> localISODate (- 600) 1704139200000 = ''2024-01-02''
   \<and> toISOString_slice10 1704139200000 = ''2024-01-01''
   \<and> currentStreak_spec (localISODate (- 600) 1704139200000)
     [\<lparr>date = ''2024-01-01'', contributionCount = 3\<rparr>,
      \<lparr>date = ''2024-01-02'', contributionCount = 0\<rparr>] = 1"
  by code_simp

section \<open>Longest streak\<close>

text \<open>
  C2. \<open>calculateLongestStreak\<close> returns the maximum length of a run of consecutive
  positive days of the list: some run has that length, and no run is longer.
\<close>

theorem calculateLongestStreak_max_run:
  "(\<exists>i. positiveRun days i (calculateLongestStreak days)) \<and>
   (\<forall>i n. positiveRun days i n \<longrightarrow> n \<le> calculateLongestStreak days)"
  using longest_is_run longest_ge_run by blast

theorem calculateLongestStreak_max_run_witness:
  "positiveRun [\<lparr>date = ''2024-01-01'', contributionCount = 1\<rparr>,
                \<lparr>date = ''2024-01-02'', contributionCount = 2\<rparr>,
                \<lparr>date = ''2024-01-03'', contributionCount = 0\<rparr>,
                \<lparr>date = ''2024-01-04'', contributionCount = 5\<rparr>] 0 2
   \<and> 2 \<le> calculateLongestStreak
               [\<lparr>date = ''2024-01-01'', contributionCount = 1\<rparr>,
                \<lparr>date = ''2024-01-02'', contributionCount = 2\<rparr>,
                \<lparr>date = ''2024-01-03'', contributionCount = 0\<rparr>,
                \<lparr>date = ''2024-01-04'', contributionCount = 5\<rparr>]"
proof -
  let ?ds = "[\<lparr>date = ''2024-01-01'', contributionCount = 1\<rparr>,
              \<lparr>date = ''2024-01-02'', contributionCount = 2\<rparr>,
              \<lparr>date = ''2024-01-03'', contributionCount = 0\<rparr>,
              \<lparr>date = ''2024-01-04'', contributionCount = 5\<rparr>]"
  have run: "positiveRun ?ds 0 2" by code_simp
  with calculateLongestStreak_max_run [of ?ds] have "2 \<le> calculateLongestStreak ?ds" by blast
  with run show ?thesis by simp
qed

text \<open>
  C5. On a calendar where every day has a count of zero, the current streak and the
  longest streak are both 0, whatever the clock says.
\<close>

theorem all_zero_streaks:
  assumes "\<forall>d\<in>set days. contributionCount d = 0"
  shows "calculateStreak now days = 0 \<and> calculateLongestStreak days = 0"
proof
  have "set (skipToday (toISOString_slice10 now) (sortedDesc days)) \<subseteq> set days"
    using set_skipToday [of "toISOString_slice10 now" "sortedDesc days"]
    by (simp only: set_sortedDesc)
  with assms have "\<forall>d\<in>set (skipToday (toISOString_slice10 now) (sortedDesc days)). \<not> positive d"
    by (auto simp: positive_def)
  then have "takeWhile positive (skipToday (toISOString_slice10 now) (sortedDesc days)) = []"
    by (rule takeWhile_none)
  then show "calculateStreak now days = 0"
    by (simp only: calculateStreak_eq currentStreak_spec_def list.size)
next
  obtain i where r: "positiveRun days i (calculateLongestStreak days)"
    using longest_is_run by blast
  show "calculateLongestStreak days = 0"
  proof (cases "calculateLongestStreak days")
    case 0
    then show ?thesis .
  next
    case (Suc m)
    with r have "i < length days \<and> positive (days ! i)"
      by (simp only: positiveRun_Suc_nth)
    with assms show ?thesis by (auto simp: positive_def)
  qed
qed

theorem all_zero_streaks_witness:
  "list_all (\<lambda>d. contributionCount d = 0)
     [\<lparr>date = ''2024-01-01'', contributionCount = 0\<rparr>,
      \<lparr>date = ''2024-01-02'', contributionCount = 0\<rparr>]
   \<and> calculateStreak 1704139200000
        [\<lparr>date = ''2024-01-01'', contributionCount = 0\<rparr>,
         \<lparr>date = ''2024-01-02'', contributionCount = 0\<rparr>] = 0
   \<and> calculateLongestStreak
        [\<lparr>date = ''2024-01-01'', contributionCount = 0\<rparr>,
         \<lparr>date = ''2024-01-02'', contributionCount = 0\<rparr>] = 0"
proof -
  let ?ds = "[\<lparr>date = ''2024-01-01'', contributionCount = 0\<rparr>,
              \<lparr>date = ''2024-01-02'', contributionCount = 0\<rparr>]"
  have h: "\<forall>d\<in>set ?ds. contributionCount d = 0" by simp
  from all_zero_streaks [OF h, of 1704139200000] h show ?thesis by simp
qed

text \<open>
  C10. On days in ascending date order with pairwise distinct dates, the longest streak
  is at least the current streak.
\<close>

theorem longest_ge_current:
  assumes "ascendingDistinct days"
  shows "calculateStreak now days \<le> calculateLongestStreak days"
proof -
  let ?k = "startIdx (toISOString_slice10 now) (rev days)"
  let ?n = "length (takeWhile positive (drop ?k (rev days)))"
  have s: "sortedDesc days = rev days" using assms by (rule sortedDesc_ascending)
  have c: "calculateStreak now days = ?n"
    by (simp only: calculateStreak_eq currentStreak_spec_def s drop_startIdx)
  have "?k \<le> length (rev days)" by (rule startIdx_le)
  then have "positiveRun (rev days) ?k ?n" by (rule positiveRun_takeWhile_drop)
  then have "positiveRun days (length days - (?k + ?n)) ?n" by (rule positiveRun_rev)
  then have "?n \<le> calculateLongestStreak days" by (rule longest_ge_run)
  with c show ?thesis by simp
qed

theorem longest_ge_current_witness:
  "ascendingDistinct [\<lparr>date = ''2024-01-01'', contributionCount = 4\<rparr>,
                      \<lparr>date = ''2024-01-02'', contributionCount = 0\<rparr>,
                      \<lparr>date = ''2024-01-03'', contributionCount = 2\<rparr>]
   \<and> calculateStreak 1704300000000
        [\<lparr>date = ''2024-01-01'', contributionCount = 4\<rparr>,
         \<lparr>date = ''2024-01-02'', contributionCount = 0\<rparr>,
         \<lparr>date = ''2024-01-03'', contributionCount = 2\<rparr>]
     \<le> calculateLongestStreak
        [\<lparr>date = ''2024-01-01'', contributionCount = 4\<rparr>,
         \<lparr>date = ''2024-01-02'', contributionCount = 0\<rparr>,
         \<lparr>date = ''2024-01-03'', contributionCount = 2\<rparr>]"
proof -
  let ?ds = "[\<lparr>date = ''2024-01-01'', contributionCount = 4\<rparr>,
              \<lparr>date = ''2024-01-02'', contributionCount = 0\<rparr>,
              \<lparr>date = ''2024-01-03'', contributionCount = 2\<rparr>]"
  have h: "ascendingDistinct ?ds" by code_simp
  from longest_ge_current [OF h, of 1704300000000] h show ?thesis by simp
qed

section \<open>Quartiles\<close>

lemma floor_real_div: "\<lfloor>real m / real k\<rfloor> = int (m div k)"
  by (rule floor_divide_of_nat_eq)

lemma floorIndex_quarter: "floorIndex n 0.25 = n div 4"
proof -
  have "real n * 0.25 = real n / real 4" by simp
  then have "\<lfloor>real n * 0.25\<rfloor> = int (n div 4)"
    by (simp only: floor_real_div)
  then show ?thesis by (simp only: floorIndex_def nat_int)
qed

lemma floorIndex_half: "floorIndex n 0.50 = n div 2"
proof -
  have "real n * 0.50 = real n / real 2" by simp
  then have "\<lfloor>real n * 0.50\<rfloor> = int (n div 2)"
    by (simp only: floor_real_div)
  then show ?thesis by (simp only: floorIndex_def nat_int)
qed

lemma floorIndex_three_quarters: "floorIndex n 0.75 = (3 * n) div 4"
proof -
  have "real n * 0.75 = real (3 * n) / real 4" by simp
  then have "\<lfloor>real n * 0.75\<rfloor> = int ((3 * n) div 4)"
    by (simp only: floor_real_div)
  then show ?thesis by (simp only: floorIndex_def nat_int)
qed

lemma insertBy_minus: "insertBy (\<lambda>a b. a - b) (x::int) ys = insort x ys"
  by (induction ys) simp_all

lemma sortBy_minus: "sortBy (\<lambda>a b. a - b) (xs::int list) = sort xs"
  by (induction xs) (simp_all add: sortBy_def insertBy_minus)

lemma nonZero_sort:
  "nonZero days = sort (filter (\<lambda>c. c > 0) (map contributionCount days))"
  by (simp only: nonZero_def sortBy_minus)

lemma nonZero_nonzeroAscending:
  assumes "\<forall>d\<in>set days. 0 \<le> contributionCount d"
  shows "nonZero days = nonzeroAscending days"
proof -
  have "filter (\<lambda>c. c > 0) (map contributionCount days)
        = filter (\<lambda>c. c \<noteq> 0) (map contributionCount days)"
    using assms by (intro filter_cong) auto
  then show ?thesis by (simp only: nonZero_sort nonzeroAscending_def)
qed

lemma quartile_indices:
  assumes "0 < n"
  shows "floorIndex n 0.25 \<le> floorIndex n 0.50" and "floorIndex n 0.50 \<le> floorIndex n 0.75"
    and "floorIndex n 0.75 < n"
proof -
  show "floorIndex n 0.25 \<le> floorIndex n 0.50"
    unfolding floorIndex_quarter floorIndex_half by linarith
  show "floorIndex n 0.50 \<le> floorIndex n 0.75"
    unfolding floorIndex_half floorIndex_three_quarters by linarith
  show "floorIndex n 0.75 < n"
    using assms unfolding floorIndex_three_quarters by linarith
qed

lemma computeQuartiles_spec_eq:
  assumes "\<forall>d\<in>set days. 0 \<le> contributionCount d"
  shows "computeQuartiles days = quartiles_spec days"
proof -
  have nz: "nonZero days = nonzeroAscending days"
    using assms by (rule nonZero_nonzeroAscending)
  show ?thesis
    by (simp add: computeQuartiles_def quartiles_spec_def nz floorIndex_def Let_def)
qed

text \<open>
  C3. The counts of a calendar are not negative. Then \<open>computeQuartiles\<close> returns the
  values at the positions \<open>floor(n * 0.25)\<close>, \<open>floor(n * 0.50)\<close>, \<open>floor(n * 0.75)\<close> of the
  ascending sorted sequence of the \<open>n\<close> nonzero counts, positions that all lie inside
  the sequence, and \<open>[1, 2, 3, 4]\<close> when there is no nonzero count.
\<close>

theorem computeQuartiles_percentiles:
  assumes "\<forall>d\<in>set days. 0 \<le> contributionCount d"
  shows "computeQuartiles days = quartiles_spec days
    \<and> sorted (nonzeroAscending days)
    \<and> mset (nonzeroAscending days) = mset (filter (\<lambda>c. c \<noteq> 0) (map contributionCount days))
    \<and> (nonzeroAscending days = [] \<or>
        nat \<lfloor>real (length (nonzeroAscending days)) * 0.75\<rfloor> < length (nonzeroAscending days))"
proof -
  have "nonzeroAscending days = [] \<or>
        floorIndex (length (nonzeroAscending days)) 0.75 < length (nonzeroAscending days)"
    using quartile_indices(3) [of "length (nonzeroAscending days)"] by auto
  then show ?thesis
    using computeQuartiles_spec_eq [OF assms]
    by (simp add: nonzeroAscending_def floorIndex_def)
qed

theorem computeQuartiles_percentiles_witness:
  "list_all (\<lambda>d. 0 \<le> contributionCount d)
     [\<lparr>date = ''2024-01-01'', contributionCount = 5\<rparr>,
      \<lparr>date = ''2024-01-02'', contributionCount = 0\<rparr>,
      \<lparr>date = ''2024-01-03'', contributionCount = 3\<rparr>,
      \<lparr>date = ''2024-01-04'', contributionCount = 1\<rparr>,
      \<lparr>date = ''2024-01-05'', contributionCount = 9\<rparr>,
      \<lparr>date = ''2024-01-06'', contributionCount = 2\<rparr>,
      \<lparr>date = ''2024-01-07'', contributionCount = 7\<rparr>]
   \<and> computeQuartiles
     [\<lparr>date = ''2024-01-01'', contributionCount = 5\<rparr>,
      \<lparr>date = ''2024-01-02'', contributionCount = 0\<rparr>,
      \<lparr>date = ''2024-01-03'', contributionCount = 3\<rparr>,
      \<lparr>date = ''2024-01-04'', contributionCount = 1\<rparr>,
      \<lparr>date = ''2024-01-05'', contributionCount = 9\<rparr>,
      \<lparr>date = ''2024-01-06'', contributionCount = 2\<rparr>,
      \<lparr>date = ''2024-01-07'', contributionCount = 7\<rparr>] = [2, 5, 7]"
proof -
  let ?ds = "[\<lparr>date = ''2024-01-01'', contributionCount = 5\<rparr>,
      \<lparr>date = ''2024-01-02'', contributionCount = 0\<rparr>,
      \<lparr>date = ''2024-01-03'', contributionCount = 3\<rparr>,
      \<lparr>date = ''2024-01-04'', contributionCount = 1\<rparr>,
      \<lparr>date = ''2024-01-05'', contributionCount = 9\<rparr>,
      \<lparr>date = ''2024-01-06'', contributionCount = 2\<rparr>,
      \<lparr>date = ''2024-01-07'', contributionCount = 7\<rparr>]"
  have h: "\<forall>d\<in>set ?ds. 0 \<le> contributionCount d" by simp
  have "computeQuartiles ?ds = quartiles_spec ?ds"
    using computeQuartiles_percentiles [OF h] by (rule conjunct1)
  also have "quartiles_spec ?ds = [2, 5, 7]" by code_simp
  finally have "computeQuartiles ?ds = [2, 5, 7]" .
  with h show ?thesis by simp
qed

lemma nonZero_props:
  "sorted (nonZero days)" "\<forall>c\<in>set (nonZero days). 0 < c"
  by (simp_all add: nonZero_sort)

lemma computeQuartiles_shape:
  "\<exists>q1 q2 q3 rest. computeQuartiles days = q1 # q2 # q3 # rest \<and> 0 < q1 \<and> q1 \<le> q2 \<and> q2 \<le> q3"
proof (cases "length (nonZero days) = 0")
  case True
  then show ?thesis by (simp add: computeQuartiles_def)
next
  case False
  let ?nz = "nonZero days"
  let ?n = "length ?nz"
  from False have n: "0 < ?n" by simp
  note idx = quartile_indices [OF n]
  have s: "sorted ?nz" by (rule nonZero_props)
  from idx have lt1: "floorIndex ?n 0.25 < ?n" and lt2: "floorIndex ?n 0.50 < ?n" by linarith+
  have "?nz ! floorIndex ?n 0.25 \<in> set ?nz" using lt1 by (rule nth_mem)
  then have p: "0 < ?nz ! floorIndex ?n 0.25" using nonZero_props(2) by blast
  have a: "?nz ! floorIndex ?n 0.25 \<le> ?nz ! floorIndex ?n 0.50"
    using s idx(1) lt2 by (rule sorted_nth_mono)
  have b: "?nz ! floorIndex ?n 0.50 \<le> ?nz ! floorIndex ?n 0.75"
    using s idx(2) idx(3) by (rule sorted_nth_mono)
  from False p a b show ?thesis by (simp add: computeQuartiles_def Let_def)
qed

lemma level_zero: "(getHeatmapLevel c q = 0) = (c = 0)"
  by (simp add: getHeatmapLevel_def)

lemma level_range: "c \<noteq> 0 \<Longrightarrow> 1 \<le> getHeatmapLevel c q \<and> getHeatmapLevel c q \<le> 4"
  by (simp add: getHeatmapLevel_def)

lemma level_mono_list:
  assumes "0 < q1" "q1 \<le> q2" "q2 \<le> q3" "0 \<le> c1" "c1 \<le> c2"
  shows "getHeatmapLevel c1 (q1 # q2 # q3 # rest) \<le> getHeatmapLevel c2 (q1 # q2 # q3 # rest)"
  using assms by (simp add: getHeatmapLevel_def leAt_def)

text \<open>
  C4. With the quartiles of any list of days, the level of a count grows with the count
  (counts are not negative), it is 0 exactly for the count 0, and it lies between 1 and 4
  for every other count.
\<close>

theorem heatmap_level_monotone:
  "(0 \<le> c1 \<and> c1 \<le> c2 \<longrightarrow>
      getHeatmapLevel c1 (computeQuartiles days) \<le> getHeatmapLevel c2 (computeQuartiles days))
   \<and> ((getHeatmapLevel c (computeQuartiles days) = 0) = (c = 0))
   \<and> (c \<noteq> 0 \<longrightarrow> 1 \<le> getHeatmapLevel c (computeQuartiles days)
                   \<and> getHeatmapLevel c (computeQuartiles days) \<le> 4)"
proof -
  obtain q1 q2 q3 rest where q: "computeQuartiles days = q1 # q2 # q3 # rest"
    and o: "0 < q1" "q1 \<le> q2" "q2 \<le> q3"
    using computeQuartiles_shape by blast
  have "0 \<le> c1 \<and> c1 \<le> c2 \<longrightarrow>
      getHeatmapLevel c1 (computeQuartiles days) \<le> getHeatmapLevel c2 (computeQuartiles days)"
    using level_mono_list [OF o] by (simp only: q) blast
  moreover have "(getHeatmapLevel c (computeQuartiles days) = 0) = (c = 0)"
    by (rule level_zero)
  moreover have "c \<noteq> 0 \<longrightarrow> 1 \<le> getHeatmapLevel c (computeQuartiles days)
                   \<and> getHeatmapLevel c (computeQuartiles days) \<le> 4"
    using level_range [of c "computeQuartiles days"] by blast
  ultimately show ?thesis by (intro conjI)
qed

theorem heatmap_level_monotone_witness:
  "(0::int) \<le> 2 \<and> (2::int) \<le> 6
   \<and> getHeatmapLevel 2 (computeQuartiles
        [\<lparr>date = ''2024-01-01'', contributionCount = 5\<rparr>,
         \<lparr>date = ''2024-01-02'', contributionCount = 0\<rparr>,
         \<lparr>date = ''2024-01-03'', contributionCount = 3\<rparr>])
     \<le> getHeatmapLevel 6 (computeQuartiles
        [\<lparr>date = ''2024-01-01'', contributionCount = 5\<rparr>,
         \<lparr>date = ''2024-01-02'', contributionCount = 0\<rparr>,
         \<lparr>date = ''2024-01-03'', contributionCount = 3\<rparr>])
   \<and> (4::int) \<noteq> 0
   \<and> 1 \<le> getHeatmapLevel 4 (computeQuartiles
        [\<lparr>date = ''2024-01-01'', contributionCount = 5\<rparr>,
         \<lparr>date = ''2024-01-02'', contributionCount = 0\<rparr>,
         \<lparr>date = ''2024-01-03'', contributionCount = 3\<rparr>])
   \<and> getHeatmapLevel 4 (computeQuartiles
        [\<lparr>date = ''2024-01-01'', contributionCount = 5\<rparr>,
         \<lparr>date = ''2024-01-02'', contributionCount = 0\<rparr>,
         \<lparr>date = ''2024-01-03'', contributionCount = 3\<rparr>]) \<le> 4"
  using heatmap_level_monotone
    [of 2 6 "[\<lparr>date = ''2024-01-01'', contributionCount = 5\<rparr>,
              \<lparr>date = ''2024-01-02'', contributionCount = 0\<rparr>,
              \<lparr>date = ''2024-01-03'', contributionCount = 3\<rparr>]" 4]
  by simp

section \<open>The layout of the heatmap\<close>

lemma displayWeeks_drop: "\<exists>k. displayWeeks wks width = drop k wks"
  by (auto simp: displayWeeks_def slice_def Let_def)

lemma maxWeeks_cases:
  "maxWeeks wks width =
     (if 2 * int (length wks) \<le> available width then int (length wks)
      else min (int (length wks)) (available width))"
  by (auto simp: maxWeeks_def cellWidth_def)

lemma length_displayWeeks:
  "int (length (displayWeeks wks width)) = max 0 (maxWeeks wks width)"
  by (auto simp: displayWeeks_def slice_def Let_def maxWeeks_def)

text \<open>
  C8, as the source has it. The cell width is 2 when the available width (the terminal
  width minus the indent of 2 and the day labels of 6) is at least twice the number of
  weeks, and 1 otherwise; the seven day rows are shown exactly when the cell width is 2,
  otherwise Monday, Wednesday and Friday; the displayed weeks are the last weeks of the
  calendar, the older ones being dropped first; and when the available width is not
  negative, the displayed week columns times the cell width do not exceed it. On a
  terminal of fewer than 8 columns no week is displayed.
\<close>

theorem heatmap_layout:
  "cellWidth wks width = (if 2 * int (length wks) \<le> available width then 2 else 1)
   \<and> available width = width - 2 - 6
   \<and> rowIndices wks width
       = (if cellWidth wks width = 2 then [0, 1, 2, 3, 4, 5, 6] else [1, 3, 5])
   \<and> displayWeeks wks width = drop (length wks - length (displayWeeks wks width)) wks
   \<and> (0 \<le> available width \<longrightarrow>
        int (length (displayWeeks wks width)) * cellWidth wks width \<le> available width)
   \<and> (available width < 0 \<longrightarrow> displayWeeks wks width = [])"
proof (intro conjI)
  show "cellWidth wks width = (if 2 * int (length wks) \<le> available width then 2 else 1)"
    by (simp add: cellWidth_def mult.commute)
  show "available width = width - 2 - 6"
    by (simp add: available_def indent_def dayLabelWidth_def)
  show "rowIndices wks width
       = (if cellWidth wks width = 2 then [0, 1, 2, 3, 4, 5, 6] else [1, 3, 5])"
    by (simp add: rowIndices_def cellWidth_def)
  show "displayWeeks wks width = drop (length wks - length (displayWeeks wks width)) wks"
  proof -
    obtain k where k: "displayWeeks wks width = drop k wks" using displayWeeks_drop by blast
    show ?thesis
    proof (cases "k \<le> length wks")
      case True
      then show ?thesis by (simp add: k)
    next
      case False
      then show ?thesis by (simp add: k)
    qed
  qed
  show "0 \<le> available width \<longrightarrow>
        int (length (displayWeeks wks width)) * cellWidth wks width \<le> available width"
    unfolding length_displayWeeks maxWeeks_cases by (auto simp: cellWidth_def)
  show "available width < 0 \<longrightarrow> displayWeeks wks width = []"
  proof
    assume "available width < 0"
    then have "max 0 (maxWeeks wks width) = 0" unfolding maxWeeks_cases by auto
    then have "length (displayWeeks wks width) = 0"
      using length_displayWeeks [of wks width] by simp
    then show "displayWeeks wks width = []" by simp
  qed
qed

theorem heatmap_layout_witness:
  "(0::int) \<le> available 60
   \<and> int (length (displayWeeks (replicate 53 \<lparr>contributionDays = [\<lparr>date = ''2024-01-07'', contributionCount = 1\<rparr>]\<rparr>) 60))
       * cellWidth (replicate 53 \<lparr>contributionDays = [\<lparr>date = ''2024-01-07'', contributionCount = 1\<rparr>]\<rparr>) 60 \<le> available 60
   \<and> available 5 < 0
   \<and> displayWeeks (replicate 53 \<lparr>contributionDays = [\<lparr>date = ''2024-01-07'', contributionCount = 1\<rparr>]\<rparr>) 5 = []"
proof -
  have a: "(0::int) \<le> available 60" and b: "available 5 < 0"
    by (simp_all add: available_def indent_def dayLabelWidth_def)
  from heatmap_layout [of "replicate 53 \<lparr>contributionDays = [\<lparr>date = ''2024-01-07'', contributionCount = 1\<rparr>]\<rparr>" 60] a
       heatmap_layout [of "replicate 53 \<lparr>contributionDays = [\<lparr>date = ''2024-01-07'', contributionCount = 1\<rparr>]\<rparr>" 5] b
  show ?thesis by blast
qed

text \<open>
  C8 without the bound on the terminal fails: at a width of 5 the available width is
  \<open>-3\<close>, no week column is displayed, and 0 columns exceed \<open>-3\<close>; the indent and the
  day labels alone are wider than the terminal.
\<close>

theorem heatmap_overflow_counterexample:
  "\<not> int (length (displayWeeks [\<lparr>contributionDays = [\<lparr>date = ''2024-01-07'', contributionCount = 1\<rparr>]\<rparr>] 5))
       * cellWidth [\<lparr>contributionDays = [\<lparr>date = ''2024-01-07'', contributionCount = 1\<rparr>]\<rparr>] 5 \<le> available 5"
  by code_simp

section \<open>The month row\<close>

lemma length_writeLabel_upto:
  "length (fold (\<lambda>i cs. cs[nat (col + int i) := label ! i]) [0..<k] chars) = length chars"
  by (induction k) simp_all

lemma length_writeLabel: "length (writeLabel chars col label) = length chars"
  by (simp only: writeLabel_def length_writeLabel_upto)

lemma nth_writeLabel_upto:
  assumes "0 \<le> col" "j < length chars"
  shows "fold (\<lambda>i cs. cs[nat (col + int i) := label ! i]) [0..<k] chars ! j
         = (if col \<le> int j \<and> int j < col + int k then label ! nat (int j - col) else chars ! j)"
proof (induction k)
  case 0
  show ?case by auto
next
  case (Suc k)
  let ?cs = "fold (\<lambda>i cs. cs[nat (col + int i) := label ! i]) [0..<k] chars"
  have len: "length ?cs = length chars" by (rule length_writeLabel_upto)
  have step: "fold (\<lambda>i cs. cs[nat (col + int i) := label ! i]) [0..<Suc k] chars
        = ?cs[nat (col + int k) := label ! k]"
    by simp
  show ?case
  proof (cases "int j = col + int k")
    case True
    then have "nat (col + int k) = j" by simp
    with assms len True show ?thesis by (simp only: step) (simp add: nat_diff_distrib)
  next
    case False
    then have "nat (col + int k) \<noteq> j" using assms by linarith
    with Suc.IH False show ?thesis by (simp only: step) auto
  qed
qed

lemma nth_writeLabel:
  assumes "0 \<le> col" "j < length chars"
  shows "writeLabel chars col label ! j
         = (if col \<le> int j \<and> int j < col + int (length label)
            then label ! nat (int j - col) else chars ! j)"
  using assms by (simp only: writeLabel_def nth_writeLabel_upto)

lemma writeAll_Nil: "writeAll [] chars = chars"
  by (simp add: writeAll_def)

lemma writeAll_Cons: "writeAll ((col, l) # pl) chars = writeAll pl (writeLabel chars col l)"
  by (simp add: writeAll_def)

lemma length_writeAll: "length (writeAll pl chars) = length chars"
proof (induction pl arbitrary: chars)
  case Nil
  show ?case by (simp only: writeAll_Nil)
next
  case (Cons p pl)
  obtain col l where p: "p = (col, l)" by (cases p)
  show ?case by (simp only: p writeAll_Cons Cons.IH length_writeLabel)
qed

lemma placeLabels_placed:
  assumes "allLabelled ps"
  shows "\<exists>e'. placeLabels ps chars e = Inr (writeAll (placed ps (length chars) e) chars, e')"
  using assms
proof (induction ps arbitrary: chars e)
  case Nil
  show ?case by (simp add: writeAll_Nil)
next
  case (Cons p ps)
  obtain col label where p: "p = (col, label)" by (cases p)
  from Cons.prems p obtain l where l: "label = Some l" and rest: "allLabelled ps"
    by (auto simp: allLabelled_def)
  show ?case
  proof (cases "col > e \<and> col + int (length l) \<le> int (length chars)")
    case True
    from Cons.IH [OF rest, of "writeLabel chars col l" "col + int (length l)"]
    obtain e' where "placeLabels ps (writeLabel chars col l) (col + int (length l))
        = Inr (writeAll (placed ps (length chars) (col + int (length l))) (writeLabel chars col l), e')"
      by (auto simp only: length_writeLabel)
    with True show ?thesis by (simp add: p l writeAll_Cons)
  next
    case False
    from Cons.IH [OF rest, of chars e]
    obtain e' where "placeLabels ps chars e = Inr (writeAll (placed ps (length chars) e) chars, e')"
      by blast
    with False show ?thesis by (auto simp add: p l)
  qed
qed

lemma placed_fits:
  "p \<in> set (placed ps n e) \<Longrightarrow> e < fst p \<and> fst p + int (length (snd p)) \<le> int n"
proof (induction ps arbitrary: e)
  case Nil
  then show ?case by simp
next
  case (Cons q ps)
  obtain col label where q: "q = (col, label)" by (cases q)
  show ?case
  proof (cases label)
    case None
    with Cons.prems q have "p \<in> set (placed ps n e)" by simp
    then show ?thesis by (rule Cons.IH)
  next
    case (Some l)
    show ?thesis
    proof (cases "col > e \<and> col + int (length l) \<le> int n")
      case True
      with Cons.prems q Some have "p = (col, l) \<or> p \<in> set (placed ps n (col + int (length l)))"
        by simp
      then show ?thesis
      proof
        assume "p = (col, l)"
        with True show ?thesis by simp
      next
        assume "p \<in> set (placed ps n (col + int (length l)))"
        then have "col + int (length l) < fst p \<and> fst p + int (length (snd p)) \<le> int n"
          by (rule Cons.IH)
        with True show ?thesis by linarith
      qed
    next
      case False
      with Cons.prems q Some have "p \<in> set (placed ps n e)" by auto
      then show ?thesis by (rule Cons.IH)
    qed
  qed
qed

lemma placed_subset:
  "p \<in> set (placed ps n e) \<Longrightarrow> (fst p, Some (snd p)) \<in> set ps"
proof (induction ps arbitrary: e)
  case Nil
  then show ?case by simp
next
  case (Cons q ps)
  obtain col label where q: "q = (col, label)" by (cases q)
  show ?case
  proof (cases label)
    case None
    with Cons.prems q have "p \<in> set (placed ps n e)" by simp
    then have "(fst p, Some (snd p)) \<in> set ps" by (rule Cons.IH)
    then show ?thesis by simp
  next
    case (Some l)
    show ?thesis
    proof (cases "col > e \<and> col + int (length l) \<le> int n")
      case True
      with Cons.prems q Some have "p = (col, l) \<or> p \<in> set (placed ps n (col + int (length l)))"
        by simp
      then show ?thesis
      proof
        assume "p = (col, l)"
        with q Some show ?thesis by simp
      next
        assume "p \<in> set (placed ps n (col + int (length l)))"
        then have "(fst p, Some (snd p)) \<in> set ps" by (rule Cons.IH)
        then show ?thesis by simp
      qed
    next
      case False
      with Cons.prems q Some have "p \<in> set (placed ps n e)" by auto
      then have "(fst p, Some (snd p)) \<in> set ps" by (rule Cons.IH)
      then show ?thesis by simp
    qed
  qed
qed

lemma placed_separated: "separated (placed ps n e)"
proof (induction ps arbitrary: e)
  case Nil
  show ?case by (simp add: separated_def)
next
  case (Cons q ps)
  obtain col label where q: "q = (col, label)" by (cases q)
  show ?case
  proof (cases label)
    case None
    with q Cons.IH [of e] show ?thesis by simp
  next
    case (Some l)
    show ?thesis
    proof (cases "col > e \<and> col + int (length l) \<le> int n")
      case True
      have "\<forall>p\<in>set (placed ps n (col + int (length l))). col + int (length l) < fst p"
        using placed_fits by blast
      with True q Some Cons.IH [of "col + int (length l)"] show ?thesis
        by (simp add: separated_def)
    next
      case False
      with q Some Cons.IH [of e] show ?thesis by auto
    qed
  qed
qed

lemma writeAll_untouched:
  assumes "\<forall>p\<in>set pl. 0 \<le> fst p \<and> \<not> covers p j" "j < length chars"
  shows "writeAll pl chars ! j = chars ! j"
  using assms
proof (induction pl arbitrary: chars)
  case Nil
  show ?case by (simp only: writeAll_Nil)
next
  case (Cons p pl)
  obtain col l where p: "p = (col, l)" by (cases p)
  from Cons.prems p have c: "0 \<le> col" and nc: "\<not> (col \<le> int j \<and> int j < col + int (length l))"
    by (simp_all add: covers_def)
  have "writeAll pl (writeLabel chars col l) ! j = writeLabel chars col l ! j"
    using Cons.prems by (intro Cons.IH) (simp_all add: length_writeLabel)
  also have "\<dots> = chars ! j"
    using c Cons.prems(2) nc by (simp only: nth_writeLabel if_False)
  finally show ?case by (simp only: p writeAll_Cons)
qed

lemma writeAll_readable:
  assumes "separated pl" "\<forall>p\<in>set pl. 0 \<le> fst p \<and> fst p + int (length (snd p)) \<le> int (length chars)"
    and "p \<in> set pl" "i < length (snd p)"
  shows "writeAll pl chars ! nat (fst p + int i) = snd p ! i"
  using assms
proof (induction pl arbitrary: chars)
  case Nil
  then show ?case by simp
next
  case (Cons q pl)
  obtain col l where q: "q = (col, l)" by (cases q)
  from Cons.prems(1) have sep: "separated pl"
    and after: "\<forall>r\<in>set pl. col + int (length l) < fst r"
    by (simp_all add: separated_def q)
  from Cons.prems(2) q have fq: "0 \<le> col" "col + int (length l) \<le> int (length chars)"
    and fits: "\<forall>r\<in>set pl. 0 \<le> fst r \<and> fst r + int (length (snd r)) \<le> int (length (writeLabel chars col l))"
    by (simp_all add: length_writeLabel)
  show ?case
  proof (cases "p = q")
    case True
    let ?j = "nat (col + int i)"
    from True q Cons.prems(4) have i: "i < length l" by simp
    with fq have j: "?j < length chars" by linarith
    have "\<forall>r\<in>set pl. 0 \<le> fst r \<and> \<not> covers r ?j"
    proof
      fix r assume r: "r \<in> set pl"
      with after have "col + int (length l) < fst r" by blast
      with i fq have "\<not> covers r ?j" by (simp add: covers_def)
      moreover from fits r have "0 \<le> fst r" by blast
      ultimately show "0 \<le> fst r \<and> \<not> covers r ?j" by simp
    qed
    then have "writeAll pl (writeLabel chars col l) ! ?j = writeLabel chars col l ! ?j"
      using j by (intro writeAll_untouched) (simp_all add: length_writeLabel)
    also have "\<dots> = l ! i"
      using fq j i by (simp add: nth_writeLabel)
    finally show ?thesis by (simp only: True q writeAll_Cons fst_conv snd_conv)
  next
    case False
    with Cons.prems(3) have "p \<in> set pl" by simp
    with sep fits
    have "writeAll pl (writeLabel chars col l) ! nat (fst p + int i) = snd p ! i"
      using Cons.prems(4) by (rule Cons.IH)
    then show ?thesis by (simp only: q writeAll_Cons)
  qed
qed

lemma upt_Suc_shift: "[0..<Suc n] = 0 # map Suc [0..<n]"
  by (simp only: upt_conv_Cons [of 0 "Suc n"] map_Suc_upt)

lemma firstDayMonthsFrom_Nil: "firstDayMonthsFrom gm [] w0 = []"
  by (simp add: firstDayMonthsFrom_def)

lemma firstDayMonthsFrom_Cons:
  "firstDayMonthsFrom gm (wk # rest) w0 =
     (case contributionDays wk of
        [] \<Rightarrow> firstDayMonthsFrom gm rest (Suc w0)
      | d # _ \<Rightarrow> (w0, gm (date d)) # firstDayMonthsFrom gm rest (Suc w0))"
proof -
  have "firstDayMonthsFrom gm (wk # rest) w0 =
      (if contributionDays wk \<noteq> [] then [(w0, gm (date (hd (contributionDays wk))))] else [])
      @ firstDayMonthsFrom gm rest (Suc w0)"
    unfolding firstDayMonthsFrom_def length_Cons upt_Suc_shift
    by (simp add: filter_map comp_def)
  then show ?thesis by (cases "contributionDays wk") simp_all
qed

lemma monthChanges_Nil: "monthChanges prev [] = []"
  by (simp add: monthChanges_def)

lemma monthChanges_Cons:
  "monthChanges prev (x # r) =
     (if strictNeq (snd x) prev then x # monthChanges (snd x) r else monthChanges (snd x) r)"
  by (simp add: monthChanges_def)

lemma strictNeq_eq: "\<not> strictNeq a b \<Longrightarrow> a = b"
  by (cases a; cases b) (simp_all add: strictNeq_def)

lemma monthPositionsLoop_changes:
  "monthPositionsLoop gm cw wks w prev
     = map (labelAt cw) (monthChanges prev (firstDayMonthsFrom gm wks w))"
proof (induction wks arbitrary: w prev)
  case Nil
  show ?case by (simp add: firstDayMonthsFrom_Nil monthChanges_Nil)
next
  case step: (Cons wk rest)
  show ?case
  proof (cases "contributionDays wk")
    case Nil
    then show ?thesis by (simp add: firstDayMonthsFrom_Cons step.IH)
  next
    case (Cons d ds)
    show ?thesis
    proof (cases "strictNeq (gm (date d)) prev")
      case True
      with Cons show ?thesis
        by (simp add: firstDayMonthsFrom_Cons monthChanges_Cons step.IH Let_def labelAt_def)
    next
      case False
      then have "gm (date d) = prev" by (rule strictNeq_eq)
      with False Cons show ?thesis
        by (simp add: firstDayMonthsFrom_Cons monthChanges_Cons step.IH Let_def)
    qed
  qed
qed

lemma monthPositions_changes:
  "monthPositions gm cw dws
     = map (labelAt cw) (monthChanges (Some (- 1)) (firstDayMonthsFrom gm dws 0))"
  by (simp only: monthPositions_def monthPositionsLoop_changes)

lemma validMonths_displayWeeks:
  assumes "validMonths gm wks"
  shows "validMonths gm (displayWeeks wks width)"
proof -
  obtain k where k: "displayWeeks wks width = drop k wks" using displayWeeks_drop by blast
  have "set (drop k wks) \<subseteq> set wks" by (rule set_drop_subset)
  with assms show ?thesis unfolding k validMonths_def list_all_iff by blast
qed

lemma firstDayMonthsFrom_valid:
  assumes "validMonths gm wks" "wm \<in> set (firstDayMonthsFrom gm wks w0)"
  shows "\<exists>m. snd wm = Some m \<and> 0 \<le> m \<and> m < 12"
proof -
  from assms(2) obtain i where i: "i < length wks" "contributionDays (wks ! i) \<noteq> []"
    and wm: "snd wm = gm (date (hd (contributionDays (wks ! i))))"
    by (auto simp: firstDayMonthsFrom_def)
  from i have "wks ! i \<in> set wks" "hd (contributionDays (wks ! i)) \<in> set (contributionDays (wks ! i))"
    by simp_all
  with assms(1) have "case gm (date (hd (contributionDays (wks ! i)))) of
      None \<Rightarrow> False | Some m \<Rightarrow> 0 \<le> m \<and> m < 12"
    unfolding validMonths_def list_all_iff by blast
  with wm show ?thesis by (simp split: option.splits)
qed

lemma set_monthChanges: "set (monthChanges prev ms) \<subseteq> set ms"
  by (auto simp: monthChanges_def dest: set_zip_leftD)

lemma monthLabel_valid: "0 \<le> m \<Longrightarrow> m < 12 \<Longrightarrow> monthLabel (Some m) \<noteq> None"
  by (simp add: monthLabel_def months_def)

lemma monthPositions_allLabelled:
  assumes "validMonths gm dws"
  shows "allLabelled (monthPositions gm cw dws)"
proof -
  have "snd (labelAt cw wm) \<noteq> None"
    if "wm \<in> set (monthChanges (Some (- 1)) (firstDayMonthsFrom gm dws 0))" for wm
  proof -
    from that have "wm \<in> set (firstDayMonthsFrom gm dws 0)" using set_monthChanges by blast
    with assms obtain m where "snd wm = Some m" "0 \<le> m" "m < 12"
      using firstDayMonthsFrom_valid by blast
    then show ?thesis by (simp add: labelAt_def monthLabel_valid)
  qed
  then show ?thesis
    by (simp add: monthPositions_changes allLabelled_def list_all_iff)
qed

lemma length_blankChars: "length (blankChars dws cw) = nat (int (length dws) * cw)"
  by (simp add: blankChars_def)

lemma monthRow_placed:
  assumes "validMonths gm wks"
  shows "monthRow gm wks width =
     Inr (replicate 8 (CHR '' '')
          @ writeAll (placedLabels gm wks width) (replicate (gridColumns wks width) (CHR '' '')))"
proof -
  let ?cw = "cellWidth wks width"
  let ?dws = "displayWeeks wks width"
  have "allLabelled (monthPositions gm ?cw ?dws)"
    using assms by (intro monthPositions_allLabelled validMonths_displayWeeks)
  then obtain e' where
    "placeLabels (monthPositions gm ?cw ?dws) (blankChars ?dws ?cw) (- 1)
       = Inr (writeAll (placed (monthPositions gm ?cw ?dws) (length (blankChars ?dws ?cw)) (- 1))
                (blankChars ?dws ?cw), e')"
    using placeLabels_placed by blast
  then show ?thesis
    by (simp add: monthRow_def Let_def placedLabels_def gridColumns_def length_blankChars
        blankChars_def indent_def dayLabelWidth_def)
qed

lemma placedLabels_fit:
  assumes "p \<in> set (placedLabels gm wks width)"
  shows "0 \<le> fst p \<and> fst p + int (length (snd p)) \<le> int (gridColumns wks width)"
  using placed_fits [OF assms [unfolded placedLabels_def]] by linarith

lemma placedLabels_readable:
  assumes "p \<in> set (placedLabels gm wks width)" "i < length (snd p)"
  shows "writeAll (placedLabels gm wks width) (replicate (gridColumns wks width) (CHR '' ''))
           ! nat (fst p + int i) = snd p ! i"
proof (rule writeAll_readable)
  show "separated (placedLabels gm wks width)"
    unfolding placedLabels_def by (rule placed_separated)
  show "\<forall>p\<in>set (placedLabels gm wks width).
          0 \<le> fst p \<and> fst p + int (length (snd p))
            \<le> int (length (replicate (gridColumns wks width) (CHR '' '')))"
    using placedLabels_fit by simp
qed (use assms in simp_all)

lemma placedLabels_candidate:
  assumes "p \<in> set (placedLabels gm wks width)"
  shows "(fst p, Some (snd p))
           \<in> set (monthPositions gm (cellWidth wks width) (displayWeeks wks width))"
  using assms unfolding placedLabels_def by (rule placed_subset)

text \<open>
  C9. The runtime reads a month from every date of the calendar. Then the month
  positions are the labels of the displayed weeks whose first day's month differs from
  the month of the week before, each at the column of its week; the month row is the
  indent followed by the grid's columns with the placed labels written into them; every
  placed label is one of these month positions; a label is placed only when it starts
  after the end of the label placed before it, so placed labels never overlap; and every
  placed label lies inside the grid and is readable there.
\<close>

theorem month_labels:
  assumes "validMonths getMonth wks"
  shows "monthPositions getMonth (cellWidth wks width) (displayWeeks wks width)
           = map (labelAt (cellWidth wks width))
               (monthChanges (Some (- 1)) (firstDayMonthsFrom getMonth (displayWeeks wks width) 0))
    \<and> monthRow getMonth wks width
           = Inr (replicate 8 (CHR '' '')
                  @ writeAll (placedLabels getMonth wks width)
                      (replicate (gridColumns wks width) (CHR '' '')))
    \<and> separated (placedLabels getMonth wks width)
    \<and> (\<forall>p\<in>set (placedLabels getMonth wks width).
          (fst p, Some (snd p))
            \<in> set (monthPositions getMonth (cellWidth wks width) (displayWeeks wks width))
          \<and> 0 \<le> fst p \<and> fst p + int (length (snd p)) \<le> int (gridColumns wks width)
          \<and> (\<forall>i<length (snd p).
                writeAll (placedLabels getMonth wks width)
                  (replicate (gridColumns wks width) (CHR '' '')) ! nat (fst p + int i)
                = snd p ! i))"
proof (intro conjI)
  show "separated (placedLabels getMonth wks width)"
    unfolding placedLabels_def by (rule placed_separated)
qed (use assms monthPositions_changes monthRow_placed placedLabels_fit placedLabels_readable
      placedLabels_candidate in blast)+

theorem month_labels_witness:
  "validMonths (\<lambda>s. if s = ''2024-01-21'' \<or> s = ''2024-01-28'' then Some 0 else Some 1)
     [\<lparr>contributionDays = [\<lparr>date = ''2024-01-21'', contributionCount = 1\<rparr>]\<rparr>,
      \<lparr>contributionDays = [\<lparr>date = ''2024-01-28'', contributionCount = 0\<rparr>]\<rparr>,
      \<lparr>contributionDays = [\<lparr>date = ''2024-02-04'', contributionCount = 2\<rparr>]\<rparr>,
      \<lparr>contributionDays = [\<lparr>date = ''2024-02-11'', contributionCount = 3\<rparr>]\<rparr>]
   \<and> monthRow (\<lambda>s. if s = ''2024-01-21'' \<or> s = ''2024-01-28'' then Some 0 else Some 1)
     [\<lparr>contributionDays = [\<lparr>date = ''2024-01-21'', contributionCount = 1\<rparr>]\<rparr>,
      \<lparr>contributionDays = [\<lparr>date = ''2024-01-28'', contributionCount = 0\<rparr>]\<rparr>,
      \<lparr>contributionDays = [\<lparr>date = ''2024-02-04'', contributionCount = 2\<rparr>]\<rparr>,
      \<lparr>contributionDays = [\<lparr>date = ''2024-02-11'', contributionCount = 3\<rparr>]\<rparr>] 30
     = Inr ''        Jan Feb ''"
proof -
  let ?gm = "\<lambda>s. if s = ''2024-01-21'' \<or> s = ''2024-01-28'' then Some (0::int) else Some 1"
  let ?wks = "[\<lparr>contributionDays = [\<lparr>date = ''2024-01-21'', contributionCount = 1\<rparr>]\<rparr>,
      \<lparr>contributionDays = [\<lparr>date = ''2024-01-28'', contributionCount = 0\<rparr>]\<rparr>,
      \<lparr>contributionDays = [\<lparr>date = ''2024-02-04'', contributionCount = 2\<rparr>]\<rparr>,
      \<lparr>contributionDays = [\<lparr>date = ''2024-02-11'', contributionCount = 3\<rparr>]\<rparr>]"
  have h: "validMonths ?gm ?wks" by (simp add: validMonths_def)
  have "monthRow ?gm ?wks 30
      = Inr (replicate 8 (CHR '' '')
             @ writeAll (placedLabels ?gm ?wks 30) (replicate (gridColumns ?wks 30) (CHR '' '')))"
    using month_labels [OF h, of 30] by blast
  also have "\<dots> = Inr ''        Jan Feb ''" by code_simp
  finally show ?thesis using h by simp
qed

section \<open>Data fetching: failure and success\<close>

lemma jsonPath_step:
  assumes "jsonPath j (k # ks) = Some r"
  shows "\<exists>v. getProp (Value j) k = Inr (Value v) \<and> jsonPath v ks = Some r"
  using assms by (cases j) (auto split: option.splits)

lemma tryFetch_failed: "execSync command = Failed f \<Longrightarrow> tryFetch execSync parse = Inl (ExecThrown f)"
  by (simp add: tryFetch_def)

lemma tryFetch_syntax:
  "execSync command = Stdout out \<Longrightarrow> parse out = None \<Longrightarrow> tryFetch execSync parse = Inl SyntaxError"
  by (simp add: tryFetch_def)

lemma tryFetch_success:
  assumes "execSync command = Stdout out" "parse out = Some j"
    and l: "jsonPath j [''data'', ''viewer'', ''login''] = Some l"
    and c: "jsonPath j [''data'', ''viewer'', ''contributionsCollection'', ''contributionCalendar''] = Some c"
  shows "tryFetch execSync parse = Inr \<lparr>login = Value l, calendar = Value c\<rparr>"
proof -
  from jsonPath_step [OF l] obtain d where d: "getProp (Value j) ''data'' = Inr (Value d)"
    and l1: "jsonPath d [''viewer'', ''login''] = Some l" by blast
  from jsonPath_step [OF l1] obtain v where v: "getProp (Value d) ''viewer'' = Inr (Value v)"
    and l2: "jsonPath v [''login''] = Some l" by blast
  from jsonPath_step [OF l2] have lg: "getProp (Value v) ''login'' = Inr (Value l)" by auto
  from jsonPath_step [OF c] d have
    c1: "jsonPath d [''viewer'', ''contributionsCollection'', ''contributionCalendar''] = Some c"
    by auto
  from jsonPath_step [OF c1] v have
    c2: "jsonPath v [''contributionsCollection'', ''contributionCalendar''] = Some c"
    by auto
  from jsonPath_step [OF c2] obtain cc where
    cc: "getProp (Value v) ''contributionsCollection'' = Inr (Value cc)"
    and c3: "jsonPath cc [''contributionCalendar''] = Some c" by blast
  from jsonPath_step [OF c3] have cal: "getProp (Value cc) ''contributionCalendar'' = Inr (Value c)"
    by auto
  show ?thesis
    using assms(1,2) by (simp add: tryFetch_def andThen_def d v lg cc cal)
qed

text \<open>
  C7. When the CLI fails (the binary is missing, it exits with an error as on an
  authentication failure, or it times out) or its output is not JSON, \<open>fetchContributions\<close>
  writes the two lines of the diagnostic to standard error and ends the process with exit
  code 1. When the CLI gives a JSON document with \<open>data.viewer.login\<close> and
  \<open>data.viewer.contributionsCollection.contributionCalendar\<close>, it returns these two
  values and writes nothing. In every case the CLI is called exactly once: there is no
  retry, and the run ends either with exit code 1 after the diagnostic or with a result.
\<close>

theorem fetchContributions_outcomes:
  "(\<forall>f. execSync command = Failed f \<longrightarrow>
      fetchContributions execSync parse p
        = (Exited 1, p\<lparr>execCalls := execCalls p + 1, stderrLines := stderrLines p @ diagnostic\<rparr>))
   \<and> (\<forall>out. execSync command = Stdout out \<and> parse out = None \<longrightarrow>
      fetchContributions execSync parse p
        = (Exited 1, p\<lparr>execCalls := execCalls p + 1, stderrLines := stderrLines p @ diagnostic\<rparr>))
   \<and> (\<forall>out j l c. execSync command = Stdout out \<and> parse out = Some j
        \<and> jsonPath j [''data'', ''viewer'', ''login''] = Some l
        \<and> jsonPath j [''data'', ''viewer'', ''contributionsCollection'', ''contributionCalendar'']
            = Some c \<longrightarrow>
      fetchContributions execSync parse p
        = (Returned \<lparr>login = Value l, calendar = Value c\<rparr>, p\<lparr>execCalls := execCalls p + 1\<rparr>))
   \<and> execCalls (snd (fetchContributions execSync parse p)) = execCalls p + 1
   \<and> (fst (fetchContributions execSync parse p) = Exited 1
        \<and> stderrLines (snd (fetchContributions execSync parse p)) = stderrLines p @ diagnostic
       \<or> (\<exists>d. fst (fetchContributions execSync parse p) = Returned d)
        \<and> stderrLines (snd (fetchContributions execSync parse p)) = stderrLines p)
   \<and> length diagnostic = 2"
proof (intro conjI allI impI)
  fix f assume "execSync command = Failed f"
  then show "fetchContributions execSync parse p
        = (Exited 1, p\<lparr>execCalls := execCalls p + 1, stderrLines := stderrLines p @ diagnostic\<rparr>)"
    by (simp add: fetchContributions_def tryFetch_failed)
next
  fix out assume "execSync command = Stdout out \<and> parse out = None"
  then show "fetchContributions execSync parse p
        = (Exited 1, p\<lparr>execCalls := execCalls p + 1, stderrLines := stderrLines p @ diagnostic\<rparr>)"
    by (simp add: fetchContributions_def tryFetch_syntax)
next
  fix out j l c
  assume "execSync command = Stdout out \<and> parse out = Some j
        \<and> jsonPath j [''data'', ''viewer'', ''login''] = Some l
        \<and> jsonPath j [''data'', ''viewer'', ''contributionsCollection'', ''contributionCalendar'']
            = Some c"
  then have "tryFetch execSync parse = Inr \<lparr>login = Value l, calendar = Value c\<rparr>"
    using tryFetch_success by blast
  then show "fetchContributions execSync parse p
        = (Returned \<lparr>login = Value l, calendar = Value c\<rparr>, p\<lparr>execCalls := execCalls p + 1\<rparr>)"
    by (simp add: fetchContributions_def)
next
  show "execCalls (snd (fetchContributions execSync parse p)) = execCalls p + 1"
    by (cases "tryFetch execSync parse") (simp_all add: fetchContributions_def)
next
  show "fst (fetchContributions execSync parse p) = Exited 1
        \<and> stderrLines (snd (fetchContributions execSync parse p)) = stderrLines p @ diagnostic
       \<or> (\<exists>d. fst (fetchContributions execSync parse p) = Returned d)
        \<and> stderrLines (snd (fetchContributions execSync parse p)) = stderrLines p"
    by (cases "tryFetch execSync parse") (simp_all add: fetchContributions_def)
next
  show "length diagnostic = 2" by (simp add: diagnostic_def)
qed

theorem fetchContributions_outcomes_witness:
  "fetchContributions (\<lambda>c. Failed TimedOut) (\<lambda>s. None) \<lparr>execCalls = 0, stderrLines = []\<rparr>
     = (Exited 1, \<lparr>execCalls = 1, stderrLines = diagnostic\<rparr>)
   \<and> fetchContributions (\<lambda>c. Stdout ''not json'') (\<lambda>s. None) \<lparr>execCalls = 0, stderrLines = []\<rparr>
     = (Exited 1, \<lparr>execCalls = 1, stderrLines = diagnostic\<rparr>)
   \<and> fetchContributions (\<lambda>c. Stdout ''{...}'')
       (\<lambda>s. Some (JObject [(''data'', JObject [(''viewer'', JObject
          [(''login'', JString ''octocat''),
           (''contributionsCollection'', JObject [(''contributionCalendar'',
              JObject [(''totalContributions'', JNumber 0), (''weeks'', JArray [])])])])])]))
       \<lparr>execCalls = 0, stderrLines = []\<rparr>
     = (Returned \<lparr>login = Value (JString ''octocat''),
                  calendar = Value (JObject [(''totalContributions'', JNumber 0),
                                             (''weeks'', JArray [])])\<rparr>,
        \<lparr>execCalls = 1, stderrLines = []\<rparr>)"
proof -
  let ?p = "\<lparr>execCalls = 0, stderrLines = []\<rparr>"
  let ?j = "JObject [(''data'', JObject [(''viewer'', JObject
          [(''login'', JString ''octocat''),
           (''contributionsCollection'', JObject [(''contributionCalendar'',
              JObject [(''totalContributions'', JNumber 0), (''weeks'', JArray [])])])])])]"
  have a: "fetchContributions (\<lambda>c. Failed TimedOut) (\<lambda>s. None) ?p
     = (Exited 1, \<lparr>execCalls = 1, stderrLines = diagnostic\<rparr>)"
    using fetchContributions_outcomes [of "\<lambda>c. Failed TimedOut" "\<lambda>s. None" ?p] by simp
  have b: "fetchContributions (\<lambda>c. Stdout ''not json'') (\<lambda>s. None) ?p
     = (Exited 1, \<lparr>execCalls = 1, stderrLines = diagnostic\<rparr>)"
    using fetchContributions_outcomes [of "\<lambda>c. Stdout ''not json''" "\<lambda>s. None" ?p] by simp
  have c: "fetchContributions (\<lambda>c. Stdout ''{...}'') (\<lambda>s. Some ?j) ?p
     = (Returned \<lparr>login = Value (JString ''octocat''),
                  calendar = Value (JObject [(''totalContributions'', JNumber 0),
                                             (''weeks'', JArray [])])\<rparr>,
        \<lparr>execCalls = 1, stderrLines = []\<rparr>)"
    using fetchContributions_outcomes [of "\<lambda>c. Stdout ''{...}''" "\<lambda>s. Some ?j" ?p] by simp
  from a b c show ?thesis by (intro conjI)
qed

section \<open>The bars of the last 14 days\<close>

lemma dateAsc_cmp: "(localeCompare (date x) (date y) \<le> 0) = (date x \<le> date y)"
  by (auto simp: localeCompare_def)

lemma ascending_insertBy:
  "ascending ys \<Longrightarrow> ascending (insertBy (\<lambda>a b. localeCompare (date a) (date b)) x ys)"
proof (induction ys)
  case Nil
  show ?case by (simp add: ascending_def)
next
  case (Cons y ys)
  then have ys: "ascending ys" and y: "\<forall>z\<in>set ys. date y \<le> date z"
    by (simp_all add: ascending_def)
  show ?case
  proof (cases "date x \<le> date y")
    case True
    with y have "\<forall>z\<in>set ys. date x \<le> date z" by auto
    with True Cons.prems show ?thesis by (simp add: ascending_def dateAsc_cmp)
  next
    case False
    then have "date y \<le> date x" by simp
    with False y ys Cons.IH show ?thesis
      by (simp add: ascending_def dateAsc_cmp set_insertBy)
  qed
qed

lemma ascending_sortedAsc: "ascending (sortedAsc days)"
  unfolding sortedAsc_def
proof (induction days)
  case Nil
  show ?case by (simp add: sortBy_def ascending_def)
next
  case (Cons d ds)
  then show ?case
    using ascending_insertBy [of "sortBy (\<lambda>a b. localeCompare (date a) (date b)) ds" d]
    by (simp add: sortBy_def)
qed

lemma last14_drop: "last14 days = drop (length days - 14) (sortedAsc days)"
proof -
  have "length (sortedAsc days) = length days"
    unfolding sortedAsc_def by (induction days) (simp_all add: sortBy_def, metis length_Cons mset_insertBy size_mset size_add_mset)
  moreover have "nat (max (int (length days) - 14) 0) = length days - 14" by linarith
  ultimately show ?thesis by (simp add: last14_def slice_def Let_def)
qed

lemma foldr_max: "foldr max (xs::int list) b = Max (insert b (set xs))"
proof (induction xs)
  case Nil
  show ?case by simp
next
  case (Cons a xs)
  have "Max (insert a (insert b (set xs))) = max a (Max (insert b (set xs)))"
    by (rule Max_insert) simp_all
  with Cons show ?case by (simp add: insert_commute)
qed

lemma maxCount_Max:
  "last14 days \<noteq> [] \<Longrightarrow>
     maxCount days = max 1 (Max (set (map contributionCount (last14 days))))"
  by (simp add: maxCount_def foldr_max max.commute)

lemma mset_sortedAsc: "mset (sortedAsc days) = mset days"
  by (simp add: sortedAsc_def mset_sortBy)

lemma barMaxWidth_eq: "barMaxWidth width = max 20 (width - 18)"
  by (simp add: barMaxWidth_def labelWidth_def countWidth_def)

lemma chart_days: "map fst (renderBarChart dv tm rd days width) = last14 days"
  by (simp add: renderBarChart_def comp_def)

lemma chart_bar:
  assumes "(day, len) \<in> set (renderBarChart dv tm rd days width)"
  shows "len = barLength_spec dv tm rd (contributionCount day)
                 (max 1 (Max (set (map contributionCount (last14 days))))) (barMaxWidth width)"
proof -
  from assms have "day \<in> set (last14 days)" and len: "len = barLen dv tm rd days width day"
    by (auto simp: renderBarChart_def)
  then have "last14 days \<noteq> []" by auto
  then have "maxCount days = max 1 (Max (set (map contributionCount (last14 days))))"
    by (rule maxCount_Max)
  with len show ?thesis by (simp only: barLen_def barLength_spec_def)
qed

lemma max_positive:
  assumes "d \<in> set (last14 days)" "1 \<le> contributionCount d"
  shows "max 1 (Max (set (map contributionCount (last14 days))))
           = Max (set (map contributionCount (last14 days)))"
proof -
  have "contributionCount d \<le> Max (set (map contributionCount (last14 days)))"
    using assms(1) by (intro Max_ge) simp_all
  with assms(2) show ?thesis by simp
qed

text \<open>
  C6, as the source has it. The chart shows the last 14 days in ascending date order.
  For every displayed day the bar length is \<open>round(count / max * maxWidth)\<close>, computed by
  the runtime, where \<open>count\<close> is the day's count, \<open>maxWidth\<close> is the larger of 20 and the
  width minus 18, and \<open>max\<close> is the larger of 1 and the maximum count of the displayed
  days: the maximum count itself as soon as one displayed day has a contribution.
\<close>

theorem bar_lengths:
  "map fst (renderBarChart dv tm rd days width) = last14 days
   \<and> last14 days = drop (length days - 14) (sortedAsc days)
   \<and> ascending (sortedAsc days) \<and> mset (sortedAsc days) = mset days
   \<and> barMaxWidth width = max 20 (width - 18)
   \<and> (\<forall>(day, len)\<in>set (renderBarChart dv tm rd days width).
         len = barLength_spec dv tm rd (contributionCount day)
                 (max 1 (Max (set (map contributionCount (last14 days))))) (barMaxWidth width))
   \<and> ((\<exists>d\<in>set (last14 days). 1 \<le> contributionCount d) \<longrightarrow>
        (\<forall>(day, len)\<in>set (renderBarChart dv tm rd days width).
           len = barLength_spec dv tm rd (contributionCount day)
                   (Max (set (map contributionCount (last14 days)))) (barMaxWidth width)))"
proof (intro conjI)
  show "\<forall>(day, len)\<in>set (renderBarChart dv tm rd days width).
         len = barLength_spec dv tm rd (contributionCount day)
                 (max 1 (Max (set (map contributionCount (last14 days))))) (barMaxWidth width)"
    using chart_bar by blast
  show "(\<exists>d\<in>set (last14 days). 1 \<le> contributionCount d) \<longrightarrow>
        (\<forall>(day, len)\<in>set (renderBarChart dv tm rd days width).
           len = barLength_spec dv tm rd (contributionCount day)
                   (Max (set (map contributionCount (last14 days)))) (barMaxWidth width))"
  proof
    assume "\<exists>d\<in>set (last14 days). 1 \<le> contributionCount d"
    then have "max 1 (Max (set (map contributionCount (last14 days))))
           = Max (set (map contributionCount (last14 days)))"
      using max_positive by blast
    with chart_bar [of _ _ dv tm rd days width]
    show "\<forall>(day, len)\<in>set (renderBarChart dv tm rd days width).
           len = barLength_spec dv tm rd (contributionCount day)
                   (Max (set (map contributionCount (last14 days)))) (barMaxWidth width)"
      by auto
  qed
qed (simp_all only: chart_days last14_drop [symmetric] ascending_sortedAsc mset_sortedAsc barMaxWidth_eq)

theorem bar_lengths_witness:
  "list_ex (\<lambda>d. 1 \<le> contributionCount d)
     (last14 [\<lparr>date = ''2024-01-02'', contributionCount = 2\<rparr>,
              \<lparr>date = ''2024-01-01'', contributionCount = 1\<rparr>])
   \<and> list_all (\<lambda>(day, len). len = barLength_spec exactDivide exactTimes exactRound
                   (contributionCount day) 2 62)
       (renderBarChart exactDivide exactTimes exactRound
          [\<lparr>date = ''2024-01-02'', contributionCount = 2\<rparr>,
           \<lparr>date = ''2024-01-01'', contributionCount = 1\<rparr>] 80)
   \<and> renderBarChart exactDivide exactTimes exactRound
          [\<lparr>date = ''2024-01-02'', contributionCount = 2\<rparr>,
           \<lparr>date = ''2024-01-01'', contributionCount = 1\<rparr>] 80
       = [(\<lparr>date = ''2024-01-01'', contributionCount = 1\<rparr>, Fin 31),
          (\<lparr>date = ''2024-01-02'', contributionCount = 2\<rparr>, Fin 62)]"
proof -
  let ?ds = "[\<lparr>date = ''2024-01-02'', contributionCount = 2\<rparr>,
              \<lparr>date = ''2024-01-01'', contributionCount = 1\<rparr>]"
  have ex: "list_ex (\<lambda>d. 1 \<le> contributionCount d) (last14 ?ds)" by code_simp
  then have "\<exists>d\<in>set (last14 ?ds). 1 \<le> contributionCount d" by (simp only: list_ex_iff)
  with bar_lengths [of exactDivide exactTimes exactRound ?ds 80]
  have "\<forall>(day, len)\<in>set (renderBarChart exactDivide exactTimes exactRound ?ds 80).
           len = barLength_spec exactDivide exactTimes exactRound (contributionCount day)
                   (Max (set (map contributionCount (last14 ?ds)))) (barMaxWidth 80)"
    by blast
  moreover have "Max (set (map contributionCount (last14 ?ds))) = 2" by code_simp
  moreover have "barMaxWidth 80 = 62" by code_simp
  ultimately have all: "list_all (\<lambda>(day, len). len = barLength_spec exactDivide exactTimes exactRound
                   (contributionCount day) 2 62)
       (renderBarChart exactDivide exactTimes exactRound ?ds 80)"
    by (simp only: list_all_iff)
  have "renderBarChart exactDivide exactTimes exactRound ?ds 80
       = [(\<lparr>date = ''2024-01-01'', contributionCount = 1\<rparr>, Fin 31),
          (\<lparr>date = ''2024-01-02'', contributionCount = 2\<rparr>, Fin 62)]"
    by code_simp
  with ex all show ?thesis by (intro conjI)
qed

text \<open>
  C6 with \<open>max\<close> the maximum count alone fails when no displayed day has a contribution:
  the source divides by 1 and the bar has length 0, where \<open>0 / 0 * maxWidth\<close> is \<open>NaN\<close>.
\<close>

theorem bar_lengths_all_zero_counterexample:
  "\<not> list_all (\<lambda>(day, len). len = barLength_spec exactDivide exactTimes exactRound
                   (contributionCount day)
                   (Max (set (map contributionCount
                      (last14 [\<lparr>date = ''2024-01-01'', contributionCount = 0\<rparr>]))))
                   (barMaxWidth 80))
       (renderBarChart exactDivide exactTimes exactRound
          [\<lparr>date = ''2024-01-01'', contributionCount = 0\<rparr>] 80)"
  by code_simp

end
